theory Spec2Isabelle
  imports Main "HOL-Library.Word"
begin

section \<open>Go values: errors, panics and outcomes of a call\<close>

text \<open>
  A Go \<^verbatim>\<open>error\<close> value. \<open>EOF\<close> is \<^verbatim>\<open>io.EOF\<close>; \<open>ErrNoFrame\<close> is
  \<^verbatim>\<open>errors.New("no frame being processed, cannot add row")\<close>; \<open>ErrFieldCount got want\<close> is
  \<^verbatim>\<open>fmt.Errorf("field count mismatch: got %d, want %d", got, want)\<close>; \<open>ErrOther msg\<close> is an
  error that comes from outside the two files (the codec, the transport, the producer) and
  wraps no other error; \<open>ErrWrap msg err\<close> is an error with the message \<open>msg\<close> that wraps
  the error \<open>err\<close>, as \<^verbatim>\<open>fmt.Errorf\<close> with \<^verbatim>\<open>%w\<close> makes it.
\<close>

datatype error = EOF | ErrNoFrame | ErrFieldCount nat nat | ErrOther string | ErrWrap string error

text \<open>
  \<^verbatim>\<open>errors.Is(err, io.EOF)\<close>: the error is \<^verbatim>\<open>io.EOF\<close>, or it wraps an error for which this
  holds.
\<close>

fun IsEOF :: "error \<Rightarrow> bool" where
  "IsEOF EOF = True"
| "IsEOF (ErrWrap msg err) = IsEOF err"
| "IsEOF ErrNoFrame = False"
| "IsEOF (ErrFieldCount got want) = False"
| "IsEOF (ErrOther msg) = False"

text \<open>A run-time panic of Go: a nil pointer dereference or an index out of range.\<close>

datatype panic = NilDereference | IndexOutOfRange

text \<open>A call either panics or returns its value.\<close>

datatype 'a outcome = Panicked panic | Returned 'a

definition digit :: "nat \<Rightarrow> char" where
  "digit d = char_of (48 + d)"

function dec :: "nat \<Rightarrow> string" where
  "dec n = (if n < 10 then [digit n] else dec (n div 10) @ [digit (n mod 10)])"
  by pat_completeness auto
termination
  by (relation "measure id") auto

declare dec.simps [simp del]

text \<open>The method \<^verbatim>\<open>Error()\<close> of an error: its message.\<close>

fun ErrorString :: "error \<Rightarrow> string" where
  "ErrorString EOF = ''EOF''"
| "ErrorString ErrNoFrame = ''no frame being processed, cannot add row''"
| "ErrorString (ErrFieldCount got want) =
     ''field count mismatch: got '' @ dec got @ '', want '' @ dec want"
| "ErrorString (ErrOther msg) = msg"
| "ErrorString (ErrWrap msg err) = msg"

section \<open>Tables (package data)\<close>

text \<open>
  Modelled from the spec: the type \<^verbatim>\<open>data.Frame\<close> and its methods \<^verbatim>\<open>Rows\<close>,
  \<^verbatim>\<open>AppendRow\<close>, \<^verbatim>\<open>EmptyCopy\<close>, \<^verbatim>\<open>NewFrame\<close> and \<^verbatim>\<open>Field.AppendAll\<close> belong to package
  \<^verbatim>\<open>data\<close>, which is not among the sources. The spec describes a table as an ordered
  sequence of columns (name, element type, values) with a row count derived from the column
  length; an empty copy has the same columns and types but zero rows; the marker is a table
  with zero rows and zero columns. Element types are opaque: a value is of type \<open>'v\<close> and
  no operation checks it against the column's type.
\<close>

record 'v field =
  FieldName :: string
  FieldType :: nat
  vector :: "'v list"

record 'v frame =
  Name :: string
  RefID :: string
  Fields :: "'v field list"

text \<open>Modelled from the spec: \<^verbatim>\<open>data.NewFrame(name)\<close>, a table with no column.\<close>

definition NewFrame :: "string \<Rightarrow> 'v frame" where
  "NewFrame name = \<lparr>Name = name, RefID = '''', Fields = []\<rparr>"

text \<open>
  Modelled from the spec: \<^verbatim>\<open>Rows\<close>, the length of the first column, and zero for a table
  with no column.
\<close>

definition Rows :: "'v frame \<Rightarrow> nat" where
  "Rows f = (case Fields f of [] \<Rightarrow> 0 | c # _ \<Rightarrow> length (vector c))"

text \<open>
  Modelled from the spec: \<^verbatim>\<open>AppendRow\<close> appends the i-th value to the i-th column. Its
  one caller, \<open>addRow\<close>, has checked that there are as many values as columns; columns
  beyond the values are kept as they are.
\<close>

fun appendVals :: "'v field list \<Rightarrow> 'v list \<Rightarrow> 'v field list" where
  "appendVals (c # cs) (v # vs) = c\<lparr>vector := vector c @ [v]\<rparr> # appendVals cs vs"
| "appendVals cs vs = cs"

definition AppendRow :: "'v frame \<Rightarrow> 'v list \<Rightarrow> 'v frame" where
  "AppendRow f vals = f\<lparr>Fields := appendVals (Fields f) vals\<rparr>"

text \<open>Modelled from the spec: \<^verbatim>\<open>EmptyCopy\<close>, the same columns and types with no rows.\<close>

definition EmptyCopy :: "'v frame \<Rightarrow> 'v frame" where
  "EmptyCopy f = f\<lparr>Fields := map (\<lambda>c. c\<lparr>vector := []\<rparr>) (Fields f)\<rparr>"

text \<open>Modelled from the spec: \<^verbatim>\<open>Field.AppendAll\<close>, all values of a column appended to another.\<close>

definition AppendAll :: "'v field \<Rightarrow> 'v field \<Rightarrow> 'v field" where
  "AppendAll c g = c\<lparr>vector := vector c @ vector g\<rparr>"

section \<open>The store of frames\<close>

text \<open>
  Frames are handled through pointers (\<^verbatim>\<open>*data.Frame\<close>): the frame list of a state and its
  \<open>curFrame\<close> point to the same object, and \<open>addRow\<close> changes it in place. The store
  maps an address to the frame it holds; \<open>hi\<close> is the highest address in use. Go has no
  dangling pointer, so every address a program holds is at most \<open>hi\<close>; a nil pointer is
  \<open>None\<close>.
\<close>

type_synonym addr = nat

record 'v heap =
  cells :: "addr \<Rightarrow> 'v frame"
  hi :: addr

definition alloc :: "'v heap \<Rightarrow> 'v frame \<Rightarrow> addr \<times> 'v heap" where
  "alloc h f = (Suc (hi h), h\<lparr>cells := (cells h)(Suc (hi h) := f), hi := Suc (hi h)\<rparr>)"

text \<open>
  \<^verbatim>\<open>var markerFrame = data.NewFrame("")\<close>: one frame for the whole process, at address 0 of
  the producer's store.
\<close>

definition markerFrame :: addr where
  "markerFrame = 0"

definition heap0 :: "'v heap" where
  "heap0 = \<lparr>cells = (\<lambda>_. NewFrame ''''), hi = 0\<rparr>"

section \<open>The writer (backend/data\_adapter.go)\<close>

text \<open>
  \<^verbatim>\<open>chunkingState\<close>. \<open>Status\<close> is a Go \<^verbatim>\<open>int\<close> and \<open>ErrorSource\<close> a string; the writer
  never sets them, and \<open>reset\<close> puts them back to their zero values.
\<close>

record chunkingState =
  frames :: "addr list"
  curFrame :: "addr option"
  Error :: "error option"
  Status :: int
  ErrorSource :: string

definition zeroState :: chunkingState where
  "zeroState = \<lparr>frames = [], curFrame = None, Error = None, Status = 0, ErrorSource = ''''\<rparr>"

text \<open>\<^verbatim>\<open>pluginv2.ChunkedDataResponse\<close>, the batch on the wire; \<open>'b\<close> is an encoded frame.\<close>

record 'b ChunkedDataResponse =
  RefId :: string
  Frames :: "'b list"
  RespStatus :: "32 word"
  RespError :: string
  RespErrorSource :: string

text \<open>
  \<^verbatim>\<open>chunkedDataWriter\<close>. The field \<open>stream\<close> holds the responses that \<^verbatim>\<open>stream.Send\<close> has
  accepted so far, in order. \<open>count\<close> is a Go \<^verbatim>\<open>int\<close> that only grows from zero by row
  counts; it is a natural number here.
\<close>

record 'b chunkedDataWriter =
  stream :: "'b ChunkedDataResponse list"
  states :: "string \<rightharpoonup> chunkingState"
  count :: nat

definition newChunkedDataWriter :: "'b chunkedDataWriter" where
  "newChunkedDataWriter = \<lparr>stream = [], states = Map.empty, count = 0\<rparr>"

text \<open>
  The codec and the transport are outside the sources and are parameters:
  \<open>M\<close> is \<^verbatim>\<open>Frame.MarshalArrow\<close>, and \<open>S sent resp\<close> is the error with which
  \<^verbatim>\<open>stream.Send(resp)\<close> fails after the responses \<open>sent\<close> went through, if it fails.
  The method \<^verbatim>\<open>String()\<close> of an error source belongs to package \<^verbatim>\<open>status\<close>, which is
  not among the sources either: it is the parameter \<open>Src\<close>.
\<close>

type_synonym ('v, 'b) marshal = "'v frame \<Rightarrow> error + 'b"
type_synonym 'b send = "'b ChunkedDataResponse list \<Rightarrow> 'b ChunkedDataResponse \<Rightarrow> error option"
type_synonym source = "string \<Rightarrow> string"

definition addFrame :: "chunkingState \<Rightarrow> addr \<Rightarrow> chunkingState" where
  "addFrame st f = st\<lparr>frames := frames st @ [markerFrame, f], curFrame := Some f\<rparr>"

text \<open>
  \<open>addRow\<close> is called on the pointer read from the map: \<open>None\<close> is the nil pointer, and
  reading \<^verbatim>\<open>st.curFrame\<close> through it panics.
\<close>

definition addRow :: "'v heap \<Rightarrow> chunkingState option \<Rightarrow> 'v list \<Rightarrow> (error option \<times> 'v heap) outcome" where
  "addRow h state vals =
     (case state of
        None \<Rightarrow> Panicked NilDereference
      | Some st \<Rightarrow>
          (case curFrame st of
             None \<Rightarrow> Returned (Some ErrNoFrame, h)
           | Some a \<Rightarrow>
               if length vals \<noteq> length (Fields (cells h a))
               then Returned (Some (ErrFieldCount (length vals) (length (Fields (cells h a)))), h)
               else Returned (None, h\<lparr>cells := (cells h)(a := AppendRow (cells h a) vals)\<rparr>)))"

definition reset :: "'v heap \<Rightarrow> chunkingState \<Rightarrow> 'v heap \<times> chunkingState" where
  "reset h st =
     (case curFrame st of
        None \<Rightarrow> (h, zeroState)
      | Some a \<Rightarrow>
          (case alloc h (EmptyCopy (cells h a)) of
             (a', h') \<Rightarrow> (h', zeroState\<lparr>frames := [a'], curFrame := Some a'\<rparr>)))"

text \<open>The inner loop of \<open>flush\<close>: every frame of one state is encoded, in order.\<close>

fun encodeFrames :: "('v, 'b) marshal \<Rightarrow> 'v heap \<Rightarrow> addr list \<Rightarrow> 'b list \<Rightarrow> error + 'b list" where
  "encodeFrames M h [] out = Inr out"
| "encodeFrames M h (a # rest) out =
     (case M (cells h a) of
        Inl err \<Rightarrow> Inl err
      | Inr encoded \<Rightarrow> encodeFrames M h rest (out @ [encoded]))"

definition response :: "source \<Rightarrow> string \<Rightarrow> chunkingState \<Rightarrow> 'b list \<Rightarrow> 'b ChunkedDataResponse" where
  "response Src refID state encs =
     \<lparr>RefId = refID, Frames = encs, RespStatus = word_of_int (Status state),
      RespError = (case Error state of None \<Rightarrow> '''' | Some e \<Rightarrow> ErrorString e),
      RespErrorSource = Src (ErrorSource state)\<rparr>"

text \<open>
  The first loop of \<open>flush\<close>, \<^verbatim>\<open>for refID, state := range w.states\<close>. Go visits the keys
  of a map in an order of its own choosing: the order \<open>ks\<close> is a parameter, a list of the
  keys of the map without repetition (\<open>range_of\<close> below). Each state is encoded and sent
  before the next one is looked at.
\<close>

fun sendLoop :: "('v, 'b) marshal \<Rightarrow> 'b send \<Rightarrow> source \<Rightarrow> 'v heap \<Rightarrow> (string \<rightharpoonup> chunkingState) \<Rightarrow>
    string list \<Rightarrow> 'b ChunkedDataResponse list \<Rightarrow> error option \<times> 'b ChunkedDataResponse list" where
  "sendLoop M S Src h sts [] sent = (None, sent)"
| "sendLoop M S Src h sts (refID # ks) sent =
     (case sts refID of
        None \<Rightarrow> sendLoop M S Src h sts ks sent
      | Some state \<Rightarrow>
          (case encodeFrames M h (frames state) [] of
             Inl err \<Rightarrow> (Some err, sent)
           | Inr encs \<Rightarrow>
               (case S sent (response Src refID state encs) of
                  Some err \<Rightarrow> (Some err, sent)
                | None \<Rightarrow> sendLoop M S Src h sts ks (sent @ [response Src refID state encs]))))"

text \<open>The second loop of \<open>flush\<close>, \<^verbatim>\<open>for _, state := range w.states\<close>, in the order \<open>rs\<close>.\<close>

fun resetLoop :: "string list \<Rightarrow> 'v heap \<Rightarrow> (string \<rightharpoonup> chunkingState) \<Rightarrow>
    'v heap \<times> (string \<rightharpoonup> chunkingState)" where
  "resetLoop [] h sts = (h, sts)"
| "resetLoop (k # ks) h sts =
     (case sts k of
        None \<Rightarrow> resetLoop ks h sts
      | Some st \<Rightarrow> (case reset h st of (h', st') \<Rightarrow> resetLoop ks h' (sts(k \<mapsto> st'))))"

definition range_of :: "('k \<rightharpoonup> 'a) \<Rightarrow> 'k list \<Rightarrow> bool" where
  "range_of m ks \<longleftrightarrow> distinct ks \<and> set ks = dom m"

definition flush :: "('v, 'b) marshal \<Rightarrow> 'b send \<Rightarrow> source \<Rightarrow> string list \<Rightarrow> string list \<Rightarrow>
    'v heap \<Rightarrow> 'b chunkedDataWriter \<Rightarrow> error option \<times> 'v heap \<times> 'b chunkedDataWriter" where
  "flush M S Src ks rs h w =
     (if count w = 0 then (None, h, w)
      else
        (case sendLoop M S Src h (states w) ks (stream w) of
           (Some err, sent) \<Rightarrow> (Some err, h, w\<lparr>stream := sent\<rparr>)
         | (None, sent) \<Rightarrow>
             (case resetLoop rs h (states w) of
                (h', sts') \<Rightarrow> (None, h', w\<lparr>stream := sent, states := sts', count := 0\<rparr>))))"

definition maxBatchSize :: nat where
  "maxBatchSize = 1000"

definition maybeFlush :: "('v, 'b) marshal \<Rightarrow> 'b send \<Rightarrow> source \<Rightarrow> string list \<Rightarrow> string list \<Rightarrow>
    'v heap \<Rightarrow> 'b chunkedDataWriter \<Rightarrow> error option \<times> 'v heap \<times> 'b chunkedDataWriter" where
  "maybeFlush M S Src ks rs h w =
     (if count w < maxBatchSize then (None, h, w) else flush M S Src ks rs h w)"

definition returned :: "error option \<times> 'v heap \<times> 'b chunkedDataWriter \<Rightarrow>
    error option outcome \<times> 'v heap \<times> 'b chunkedDataWriter" where
  "returned r = (case r of (e, h, w) \<Rightarrow> (Returned e, h, w))"

text \<open>
  \<open>WriteFrame\<close>. The frame \<open>f\<close> is a pointer and may be nil: the state is looked up, and
  created and stored when absent, before \<^verbatim>\<open>f.RefID = refID\<close> dereferences \<open>f\<close>.
\<close>

definition WriteFrame :: "('v, 'b) marshal \<Rightarrow> 'b send \<Rightarrow> source \<Rightarrow> string list \<Rightarrow> string list \<Rightarrow>
    string \<Rightarrow> addr option \<Rightarrow> 'v heap \<Rightarrow> 'b chunkedDataWriter \<Rightarrow>
    error option outcome \<times> 'v heap \<times> 'b chunkedDataWriter" where
  "WriteFrame M S Src ks rs refID f h w =
     (let state = (case states w refID of None \<Rightarrow> zeroState | Some st \<Rightarrow> st);
          w1 = w\<lparr>states := (states w)(refID \<mapsto> state)\<rparr>
      in case f of
           None \<Rightarrow> (Panicked NilDereference, h, w1)
         | Some a \<Rightarrow>
             (let h1 = h\<lparr>cells := (cells h)(a := (cells h a)\<lparr>RefID := refID\<rparr>)\<rparr>;
                  w2 = w1\<lparr>states := (states w1)(refID \<mapsto> addFrame state a)\<rparr>;
                  w3 = w2\<lparr>count := count w2 + Rows (cells h1 a)\<rparr>
              in returned (maybeFlush M S Src ks rs h1 w3)))"

definition WriteFrameRow :: "('v, 'b) marshal \<Rightarrow> 'b send \<Rightarrow> source \<Rightarrow> string list \<Rightarrow> string list \<Rightarrow>
    string \<Rightarrow> 'v list \<Rightarrow> 'v heap \<Rightarrow> 'b chunkedDataWriter \<Rightarrow>
    error option outcome \<times> 'v heap \<times> 'b chunkedDataWriter" where
  "WriteFrameRow M S Src ks rs refID vals h w =
     (case addRow h (states w refID) vals of
        Panicked p \<Rightarrow> (Panicked p, h, w)
      | Returned (Some err, h1) \<Rightarrow> (Returned (Some err), h1, w)
      | Returned (None, h1) \<Rightarrow> returned (maybeFlush M S Src ks rs h1 (w\<lparr>count := count w + 1\<rparr>)))"

text \<open>
  \<open>WriteError\<close>: \<^verbatim>\<open>state.Error = err\<close> writes through the pointer read from the map, which
  is nil for an identifier without a state. The error \<open>err\<close> may itself be nil.
\<close>

definition WriteError :: "('v, 'b) marshal \<Rightarrow> 'b send \<Rightarrow> source \<Rightarrow> string list \<Rightarrow> string list \<Rightarrow>
    string \<Rightarrow> error option \<Rightarrow> 'v heap \<Rightarrow> 'b chunkedDataWriter \<Rightarrow>
    error option outcome \<times> 'v heap \<times> 'b chunkedDataWriter" where
  "WriteError M S Src ks rs refID err h w =
     (case states w refID of
        None \<Rightarrow> (Panicked NilDereference, h, w)
      | Some state \<Rightarrow>
          returned (flush M S Src ks rs h
            (w\<lparr>states := (states w)(refID \<mapsto> state\<lparr>Error := err\<rparr>), count := count w + 1\<rparr>)))"

definition Close :: "('v, 'b) marshal \<Rightarrow> 'b send \<Rightarrow> source \<Rightarrow> string list \<Rightarrow> string list \<Rightarrow>
    'v heap \<Rightarrow> 'b chunkedDataWriter \<Rightarrow> error option outcome \<times> 'v heap \<times> 'b chunkedDataWriter" where
  "Close M S Src ks rs h w = returned (flush M S Src ks rs h w)"

section \<open>The reassembler (experimental/datasourcetest/client.go)\<close>

text \<open>
  The local type \<^verbatim>\<open>streamState\<close> of \<open>QueryChunkedData\<close>, with its fields \<^verbatim>\<open>frames\<close> and
  \<^verbatim>\<open>curFrame\<close>.
\<close>

record streamState =
  recvFrames :: "addr list"
  recvCurFrame :: "addr option"

definition zeroStreamState :: streamState where
  "zeroStreamState = \<lparr>recvFrames = [], recvCurFrame = None\<rparr>"

text \<open>
  \<^verbatim>\<open>for i, field := range f.Fields { st.curFrame.Fields[i].AppendAll(field) }\<close>: the first
  argument holds the columns of the open frame from index \<open>i\<close> on, the second the columns
  of the incoming frame from \<open>i\<close> on. Indexing past the last column of the open frame
  panics.
\<close>

fun mergeFields :: "'v field list \<Rightarrow> 'v field list \<Rightarrow> 'v field list outcome" where
  "mergeFields cs [] = Returned cs"
| "mergeFields [] (g # gs) = Panicked IndexOutOfRange"
| "mergeFields (c # cs) (g # gs) =
     (case mergeFields cs gs of
        Panicked p \<Rightarrow> Panicked p
      | Returned cs' \<Rightarrow> Returned (AppendAll c g # cs'))"

text \<open>
  One turn of \<^verbatim>\<open>for _, frame := range sr.Frames\<close>. \<open>U\<close> is \<^verbatim>\<open>data.UnmarshalArrowFrame\<close>, a
  parameter; the frame it returns is a new object of the consumer's store. The result is
  a panic, or the error that makes \<open>QueryChunkedData\<close> return, or the store and state
  with which the loop goes on.
\<close>

type_synonym ('v, 'b) unmarshal = "'b \<Rightarrow> error + 'v frame"

definition frameStep :: "('v, 'b) unmarshal \<Rightarrow> 'b \<Rightarrow> 'v heap \<Rightarrow> streamState \<Rightarrow>
    (error + 'v heap \<times> streamState) outcome" where
  "frameStep U frame h st =
     (case U frame of
        Inl err \<Rightarrow> Returned (Inl err)
      | Inr decoded \<Rightarrow>
          (case alloc h decoded of
             (f, h1) \<Rightarrow>
               if Rows (cells h1 f) = 0
               then Returned (Inr (h1, st\<lparr>recvCurFrame := None\<rparr>))
               else
                 (case recvCurFrame st of
                    Some c \<Rightarrow>
                      (case mergeFields (Fields (cells h1 c)) (Fields (cells h1 f)) of
                         Panicked p \<Rightarrow> Panicked p
                       | Returned cs \<Rightarrow>
                           Returned (Inr (h1\<lparr>cells := (cells h1)(c := (cells h1 c)\<lparr>Fields := cs\<rparr>)\<rparr>, st)))
                  | None \<Rightarrow>
                      Returned (Inr (h1, st\<lparr>recvFrames := recvFrames st @ [f], recvCurFrame := Some f\<rparr>)))))"

fun frameLoop :: "('v, 'b) unmarshal \<Rightarrow> 'b list \<Rightarrow> 'v heap \<Rightarrow> streamState \<Rightarrow>
    (error + 'v heap \<times> streamState) outcome" where
  "frameLoop U [] h st = Returned (Inr (h, st))"
| "frameLoop U (frame # rest) h st =
     (case frameStep U frame h st of
        Panicked p \<Rightarrow> Panicked p
      | Returned (Inl err) \<Rightarrow> Returned (Inl err)
      | Returned (Inr (h', st')) \<Rightarrow> frameLoop U rest h' st')"

text \<open>
  \<^verbatim>\<open>backend.Responses\<close> as returned at the end of the stream: for every identifier the
  frames its list points to, read from the store at that moment.
\<close>

type_synonym 'v Responses = "string \<rightharpoonup> 'v frame list"

definition collect :: "'v heap \<Rightarrow> (string \<rightharpoonup> streamState) \<Rightarrow> 'v Responses" where
  "collect h stateByRefID =
     (\<lambda>refID. case stateByRefID refID of
        None \<Rightarrow> None
      | Some state \<Rightarrow> Some (map (cells h) (recvFrames state)))"

text \<open>
  The receive loop \<^verbatim>\<open>for { sr, err := stream.Recv() ... }\<close>. What \<^verbatim>\<open>Recv\<close> delivers is the
  list of responses \<open>msgs\<close>, one per call, and then the error \<open>fin\<close> (\<open>EOF\<close> at the regular
  end of the stream; the loop tests it with \<^verbatim>\<open>errors.Is(err, io.EOF)\<close>): the function
  returns only on a stream that ends, and those are the streams a list describes. The
  value is the pair that Go returns, the response or nil and the error or nil.
\<close>

fun recvLoop :: "('v, 'b) unmarshal \<Rightarrow> 'b ChunkedDataResponse list \<Rightarrow> error \<Rightarrow> 'v heap \<Rightarrow>
    (string \<rightharpoonup> streamState) \<Rightarrow> ('v Responses option \<times> error option) outcome" where
  "recvLoop U [] fin h stateByRefID =
     (if IsEOF fin then Returned (Some (collect h stateByRefID), None)
      else Returned (None, Some fin))"
| "recvLoop U (sr # rest) fin h stateByRefID =
     (case frameLoop U (Frames sr) h
             (case stateByRefID (RefId sr) of None \<Rightarrow> zeroStreamState | Some st \<Rightarrow> st) of
        Panicked p \<Rightarrow> Panicked p
      | Returned (Inl err) \<Rightarrow> Returned (None, Some err)
      | Returned (Inr (h', st')) \<Rightarrow> recvLoop U rest fin h' (stateByRefID(RefId sr \<mapsto> st')))"

text \<open>
  \<open>QueryChunkedData\<close> of the test client: opening the stream fails with an error, or gives
  the stream that the loop reads.
\<close>

definition QueryChunkedData :: "('v, 'b) unmarshal \<Rightarrow> error + 'b ChunkedDataResponse list \<times> error \<Rightarrow>
    'v heap \<Rightarrow> ('v Responses option \<times> error option) outcome" where
  "QueryChunkedData U conn h =
     (case conn of
        Inl err \<Rightarrow> Returned (None, Some err)
      | Inr (msgs, fin) \<Rightarrow> recvLoop U msgs fin h Map.empty)"

section \<open>A producer: a sequence of calls on one writer\<close>

text \<open>
  A handler drives the writer as the benchmark's does: it builds a frame
  (\<^verbatim>\<open>data.NewFrame\<close>, a new object of the store) and passes it to \<open>WriteFrame\<close>, appends
  rows with \<open>WriteFrameRow\<close>, may report an error with \<open>WriteError\<close>, and ends with
  \<open>Close\<close>. Each call comes with the two orders in which a flush inside it would visit
  the map. A handler stops at the first call that panics or returns an error.
\<close>

datatype 'v call =
    CallWriteFrame string "'v frame"
  | CallWriteFrameRow string "'v list"
  | CallWriteError string "error option"
  | CallClose

fun step :: "('v, 'b) marshal \<Rightarrow> 'b send \<Rightarrow> source \<Rightarrow> 'v call \<Rightarrow> string list \<Rightarrow> string list \<Rightarrow>
    'v heap \<Rightarrow> 'b chunkedDataWriter \<Rightarrow> error option outcome \<times> 'v heap \<times> 'b chunkedDataWriter" where
  "step M S Src (CallWriteFrame refID t) ks rs h w =
     (case alloc h t of (f, h1) \<Rightarrow> WriteFrame M S Src ks rs refID (Some f) h1 w)"
| "step M S Src (CallWriteFrameRow refID vals) ks rs h w = WriteFrameRow M S Src ks rs refID vals h w"
| "step M S Src (CallWriteError refID err) ks rs h w = WriteError M S Src ks rs refID err h w"
| "step M S Src CallClose ks rs h w = Close M S Src ks rs h w"

fun run :: "('v, 'b) marshal \<Rightarrow> 'b send \<Rightarrow> source \<Rightarrow> ('v call \<times> string list \<times> string list) list \<Rightarrow>
    'v heap \<Rightarrow> 'b chunkedDataWriter \<Rightarrow> error option outcome \<times> 'v heap \<times> 'b chunkedDataWriter" where
  "run M S Src [] h w = (Returned None, h, w)"
| "run M S Src ((c, ks, rs) # rest) h w =
     (case step M S Src c ks rs h w of
        (Returned None, h', w') \<Rightarrow> run M S Src rest h' w'
      | (Returned (Some err), h', w') \<Rightarrow> (Returned (Some err), h', w')
      | (Panicked p, h', w') \<Rightarrow> (Panicked p, h', w'))"

text \<open>
  Example inputs: a transport that accepts every response, and tables of natural numbers
  with one or two columns.
\<close>

definition sendOk :: "'b send" where
  "sendOk sent resp = None"

text \<open>A rendering of error sources: the empty source is shown under a default name.\<close>

definition sourceName :: source where
  "sourceName s = (if s = [] then ''plugin'' else s)"

definition column :: "string \<Rightarrow> nat list \<Rightarrow> nat field" where
  "column name vs = \<lparr>FieldName = name, FieldType = 0, vector = vs\<rparr>"

definition table1 :: "string \<Rightarrow> nat list \<Rightarrow> nat frame" where
  "table1 name xs = \<lparr>Name = name, RefID = '''', Fields = [column ''x'' xs]\<rparr>"

definition table2 :: "string \<Rightarrow> nat list \<Rightarrow> nat list \<Rightarrow> nat frame" where
  "table2 name xs ys = \<lparr>Name = name, RefID = '''', Fields = [column ''x'' xs, column ''y'' ys]\<rparr>"

definition batch :: "string \<Rightarrow> 'b list \<Rightarrow> 'b ChunkedDataResponse" where
  "batch refID encs =
     \<lparr>RefId = refID, Frames = encs, RespStatus = 0, RespError = '''', RespErrorSource = ''plugin''\<rparr>"

text \<open>A codec that encodes a frame as itself and refuses the frames of one name.\<close>

definition marshalUnless :: "string \<Rightarrow> (nat, nat frame) marshal" where
  "marshalUnless bad f = (if Name f = bad then Inl (ErrOther ''cannot marshal'') else Inr f)"

text \<open>The state of an identifier right after \<open>WriteFrame\<close> on a new state.\<close>

definition openState :: "addr \<Rightarrow> chunkingState" where
  "openState a = zeroState\<lparr>frames := [markerFrame, a], curFrame := Some a\<rparr>"

text \<open>
  The store and the writer after \<^verbatim>\<open>WriteFrame("A", a)\<close> and \<^verbatim>\<open>WriteFrame("B", b)\<close>, for two
  frames of one column and one row (\<open>storeAB_writerAB_reached\<close> below).
\<close>

definition storeAB :: "string \<Rightarrow> nat heap" where
  "storeAB name =
     \<lparr>cells = (cells heap0)(1 := (table1 ''a'' [1])\<lparr>RefID := ''A''\<rparr>,
                             2 := (table1 name [2])\<lparr>RefID := ''B''\<rparr>),
      hi = 2\<rparr>"

definition writerAB :: "nat frame chunkedDataWriter" where
  "writerAB = \<lparr>stream = [], states = [''A'' \<mapsto> openState 1, ''B'' \<mapsto> openState 2], count = 2\<rparr>"

definition twoFrames :: "string \<Rightarrow> (nat call \<times> string list \<times> string list) list" where
  "twoFrames name =
     [(CallWriteFrame ''A'' (table1 ''a'' [1]), [''A''], [''A'']),
      (CallWriteFrame ''B'' (table1 name [2]), [''A'', ''B''], [''A'', ''B''])]"

text \<open>
  The store and the writer inside \<^verbatim>\<open>WriteFrame("A", a)\<close> for a frame of 1000 rows, when
  \<open>maybeFlush\<close> is about to flush; and a handler that passes this frame, appends one row
  and closes.
\<close>

definition storeFull :: "nat heap" where
  "storeFull =
     \<lparr>cells = (cells heap0)(1 := (table1 ''a'' (replicate 1000 7))\<lparr>RefID := ''A''\<rparr>), hi = 1\<rparr>"

definition writerFull :: "nat frame chunkedDataWriter" where
  "writerFull = \<lparr>stream = [], states = [''A'' \<mapsto> openState 1], count = 1000\<rparr>"

definition thresholdFlush :: "(nat call \<times> string list \<times> string list) list" where
  "thresholdFlush =
     [(CallWriteFrame ''A'' (table1 ''a'' (replicate 1000 7)), [''A''], [''A'']),
      (CallWriteFrameRow ''A'' [5], [''A''], [''A'']),
      (CallClose, [''A''], [''A''])]"

text \<open>
  A handler with two identifiers: a table for \<open>A\<close> with one row, two tables of 1000 rows
  for \<open>B\<close>, each of which brings the counter to the threshold, then a second row for \<open>A\<close>.
\<close>

definition interleaved :: "(nat call \<times> string list \<times> string list) list" where
  "interleaved =
     [(CallWriteFrame ''A'' (table1 ''a'' []), [''A''], [''A'']),
      (CallWriteFrameRow ''A'' [1], [''A''], [''A'']),
      (CallWriteFrame ''B'' (table1 ''b'' (replicate 1000 7)), [''A'', ''B''], [''A'', ''B'']),
      (CallWriteFrame ''B'' (table1 ''c'' (replicate 1000 8)), [''A'', ''B''], [''A'', ''B'']),
      (CallWriteFrameRow ''A'' [2], [''A'', ''B''], [''A'', ''B'']),
      (CallClose, [''A'', ''B''], [''A'', ''B''])]"

section \<open>Invariants used in the proofs\<close>

text \<open>An address of the store that holds a frame with at least one row.\<close>

definition populated :: "'v heap \<Rightarrow> addr \<Rightarrow> bool" where
  "populated h a \<longleftrightarrow> a \<le> hi h \<and> 0 < Rows (cells h a)"

definition goodState :: "'v heap \<Rightarrow> streamState \<Rightarrow> bool" where
  "goodState h st \<longleftrightarrow>
     list_all (populated h) (recvFrames st) \<and>
     (case recvCurFrame st of None \<Rightarrow> True | Some c \<Rightarrow> populated h c)"

text \<open>
  What \<open>reset\<close> leaves for a state \<open>st\<close> of the store \<open>h\<close>, seen in a later store \<open>h'\<close>.
\<close>

definition wasReset :: "'v heap \<Rightarrow> 'v heap \<Rightarrow> chunkingState \<Rightarrow> chunkingState option \<Rightarrow> bool" where
  "wasReset h h' st new \<longleftrightarrow>
     (case curFrame st of
        None \<Rightarrow> new = Some zeroState
      | Some a \<Rightarrow>
          (\<exists>a'. new = Some (zeroState\<lparr>frames := [a'], curFrame := Some a'\<rparr>) \<and>
                hi h < a' \<and> a' \<le> hi h' \<and> a' \<noteq> markerFrame \<and>
                cells h' a' = EmptyCopy (cells h a) \<and> Rows (cells h' a') = 0))"

text \<open>
  A state as every call of a handler leaves it: it has an open frame, which is an address
  of the store and the last entry of its frame list.
\<close>

definition openLast :: "'v heap \<Rightarrow> chunkingState \<Rightarrow> bool" where
  "openLast h st \<longleftrightarrow>
     (case curFrame st of
        None \<Rightarrow> False
      | Some a \<Rightarrow> a \<le> hi h \<and> frames st \<noteq> [] \<and> last (frames st) = a)"

definition wellFormed :: "'v heap \<Rightarrow> (string \<rightharpoonup> chunkingState) \<Rightarrow> bool" where
  "wellFormed h sts \<longleftrightarrow> (\<forall>k st. sts k = Some st \<longrightarrow> openLast h st)"

text \<open>The identifiers that a handler passes to \<open>WriteFrame\<close>.\<close>

fun written :: "('v call \<times> string list \<times> string list) list \<Rightarrow> string list" where
  "written [] = []"
| "written ((CallWriteFrame refID t, ks, rs) # rest) = refID # written rest"
| "written ((c, ks, rs) # rest) = written rest"

text \<open>
  The store and the states with which the receive loop goes on after the responses
  \<open>msgs\<close>, when none of them has ended the call: the body of the loop, once per response.
\<close>

fun received :: "('v, 'b) unmarshal \<Rightarrow> 'b ChunkedDataResponse list \<Rightarrow> 'v heap \<Rightarrow>
    (string \<rightharpoonup> streamState) \<Rightarrow> (error + 'v heap \<times> (string \<rightharpoonup> streamState)) outcome" where
  "received U [] h stateByRefID = Returned (Inr (h, stateByRefID))"
| "received U (sr # rest) h stateByRefID =
     (case frameLoop U (Frames sr) h
             (case stateByRefID (RefId sr) of None \<Rightarrow> zeroStreamState | Some st \<Rightarrow> st) of
        Panicked p \<Rightarrow> Panicked p
      | Returned (Inl err) \<Rightarrow> Returned (Inl err)
      | Returned (Inr (h', st')) \<Rightarrow> received U rest h' (stateByRefID(RefId sr \<mapsto> st')))"

text \<open>
  A response is the batch of its identifier: the identifier has a state, the response is
  built from it, and its encoded frames are the encodings of the frames of the list, one
  by one and in order.
\<close>

definition batchOf :: "('v, 'b) marshal \<Rightarrow> source \<Rightarrow> 'v heap \<Rightarrow> (string \<rightharpoonup> chunkingState) \<Rightarrow>
    'b ChunkedDataResponse \<Rightarrow> bool" where
  "batchOf M Src h sts resp \<longleftrightarrow>
     (case sts (RefId resp) of
        None \<Rightarrow> False
      | Some st \<Rightarrow>
          resp = response Src (RefId resp) st (Frames resp) \<and>
          map Inr (Frames resp) = map (\<lambda>a. M (cells h a)) (frames st))"

definition nonEmptyBatches :: "'b ChunkedDataResponse list \<Rightarrow> bool" where
  "nonEmptyBatches sent \<longleftrightarrow> list_all (\<lambda>resp. Frames resp \<noteq> []) sent"

lemmas examples =
  alloc_def heap0_def newChunkedDataWriter_def zeroState_def openState_def markerFrame_def
  NewFrame_def table1_def table2_def column_def sendOk_def sourceName_def batch_def marshalUnless_def
  storeAB_def writerAB_def twoFrames_def zeroStreamState_def numeral_2_eq_2 numeral_3_eq_3

lemmas writer_defs =
  WriteFrame_def WriteFrameRow_def WriteError_def Close_def addRow_def addFrame_def
  maybeFlush_def maxBatchSize_def flush_def reset_def response_def returned_def Let_def
  Rows_def EmptyCopy_def AppendRow_def

lemmas reader_defs =
  QueryChunkedData_def frameStep_def collect_def Rows_def AppendAll_def

lemma storeAB_writerAB_reached:
  "run Inr sendOk sourceName (twoFrames name) heap0 newChunkedDataWriter = (Returned None, storeAB name, writerAB)"
  by (simp add: examples writer_defs)

section \<open>States reached by a handler\<close>

lemma openLast_mono: "openLast h st \<Longrightarrow> hi h \<le> hi h' \<Longrightarrow> openLast h' st"
  by (auto simp: openLast_def split: option.splits)

lemma reset_wellFormed:
  "reset h st = (h1, st1) \<Longrightarrow> openLast h st \<Longrightarrow> openLast h1 st1 \<and> hi h \<le> hi h1"
  by (auto simp: reset_def alloc_def openLast_def zeroState_def split: option.splits)

lemma resetLoop_dom:
  "resetLoop rs h sts = (h', sts') \<Longrightarrow> dom sts' = dom sts"
proof (induction rs arbitrary: h sts)
  case Nil
  then show ?case by simp
next
  case (Cons k rs)
  show ?case
  proof (cases "sts k")
    case None
    with Cons show ?thesis by simp
  next
    case (Some st)
    obtain h1 st1 where r: "reset h st = (h1, st1)" by (cases "reset h st")
    with Some Cons.prems have l: "resetLoop rs h1 (sts(k \<mapsto> st1)) = (h', sts')" by simp
    have "dom (sts(k \<mapsto> st1)) = insert k (dom sts)" by simp
    with Cons.IH [OF l] have "dom sts' = insert k (dom sts)" by (rule trans)
    moreover from Some have "k \<in> dom sts" by (simp add: domI)
    ultimately show ?thesis by (simp add: insert_absorb)
  qed
qed

lemma resetLoop_wellFormed:
  "resetLoop rs h sts = (h', sts') \<Longrightarrow> wellFormed h sts \<Longrightarrow> wellFormed h' sts'"
proof (induction rs arbitrary: h sts)
  case Nil
  then show ?case by simp
next
  case (Cons k rs)
  show ?case
  proof (cases "sts k")
    case None
    with Cons show ?thesis by simp
  next
    case (Some st)
    obtain h1 st1 where r: "reset h st = (h1, st1)" by (cases "reset h st")
    with Some Cons.prems have l: "resetLoop rs h1 (sts(k \<mapsto> st1)) = (h', sts')" by simp
    from Cons.prems(2) Some have "openLast h st" by (simp add: wellFormed_def)
    from reset_wellFormed [OF r this] have o: "openLast h1 st1" and m: "hi h \<le> hi h1" by auto
    have "wellFormed h1 (sts(k \<mapsto> st1))"
      using Cons.prems(2) o openLast_mono [OF _ m] by (auto simp: wellFormed_def)
    from Cons.IH [OF l this] show ?thesis .
  qed
qed

lemma encodeFrames_content:
  "encodeFrames M h fs out = Inr encs \<Longrightarrow>
   \<exists>es. encs = out @ es \<and> map Inr es = map (\<lambda>a. M (cells h a)) fs"
proof (induction fs arbitrary: out)
  case Nil
  then show ?case by simp
next
  case (Cons a fs)
  from Cons.prems obtain enc where enc: "M (cells h a) = Inr enc"
    and rest: "encodeFrames M h fs (out @ [enc]) = Inr encs"
    by (auto split: sum.splits)
  from Cons.IH [OF rest] obtain es where "encs = (out @ [enc]) @ es"
    and "map Inr es = map (\<lambda>a. M (cells h a)) fs" by blast
  with enc show ?case by (intro exI [of _ "enc # es"]) simp
qed

lemma sendLoop_sent:
  "sendLoop M S Src h sts ks sent = (e, sent') \<Longrightarrow>
   \<exists>new n. sent' = sent @ new \<and> list_all (batchOf M Src h sts) new \<and>
     map RefId new = filter (\<lambda>k. sts k \<noteq> None) (take n ks) \<and>
     (e = None \<longrightarrow> map RefId new = filter (\<lambda>k. sts k \<noteq> None) ks)"
proof (induction ks arbitrary: sent)
  case Nil
  then show ?case by simp
next
  case (Cons k ks)
  show ?case
  proof (cases "sts k")
    case None
    with Cons.prems have "sendLoop M S Src h sts ks sent = (e, sent')" by simp
    from Cons.IH [OF this] obtain new n where
      "sent' = sent @ new" "list_all (batchOf M Src h sts) new"
      "map RefId new = filter (\<lambda>k. sts k \<noteq> None) (take n ks)"
      "e = None \<longrightarrow> map RefId new = filter (\<lambda>k. sts k \<noteq> None) ks" by blast
    with None show ?thesis
      by (intro exI [of _ new] exI [of _ "Suc n"]) simp
  next
    case (Some st)
    show ?thesis
    proof (cases "encodeFrames M h (frames st) []")
      case (Inl err)
      with Some Cons.prems have "e = Some err" "sent' = sent" by simp_all
      then show ?thesis by (intro exI [of _ "[]"] exI [of _ 0]) simp
    next
      case (Inr encs)
      let ?r = "response Src k st encs"
      from encodeFrames_content [OF Inr] have c: "map Inr encs = map (\<lambda>a. M (cells h a)) (frames st)"
        by simp
      have b: "batchOf M Src h sts ?r"
        using Some c by (simp add: batchOf_def response_def)
      show ?thesis
      proof (cases "S sent ?r")
        case (Some err)
        with \<open>sts k = Some st\<close> Inr Cons.prems have "e = Some err" "sent' = sent" by simp_all
        then show ?thesis by (intro exI [of _ "[]"] exI [of _ 0]) simp
      next
        case None
        with \<open>sts k = Some st\<close> Inr Cons.prems
        have "sendLoop M S Src h sts ks (sent @ [?r]) = (e, sent')" by simp
        from Cons.IH [OF this] obtain new n where
          "sent' = (sent @ [?r]) @ new" "list_all (batchOf M Src h sts) new"
          "map RefId new = filter (\<lambda>k. sts k \<noteq> None) (take n ks)"
          "e = None \<longrightarrow> map RefId new = filter (\<lambda>k. sts k \<noteq> None) ks" by blast
        with b \<open>sts k = Some st\<close> show ?thesis
          by (intro exI [of _ "?r # new"] exI [of _ "Suc n"]) (simp add: response_def)
      qed
    qed
  qed
qed

lemma flush_sent:
  assumes "flush M S Src ks rs h w = (e, h', w')"
  shows "\<exists>new n. stream w' = stream w @ new \<and> list_all (batchOf M Src h (states w)) new \<and>
     map RefId new = filter (\<lambda>k. states w k \<noteq> None) (take n ks) \<and>
     (e = None \<and> count w \<noteq> 0 \<longrightarrow> map RefId new = filter (\<lambda>k. states w k \<noteq> None) ks)"
proof (cases "count w = 0")
  case True
  with assms have "w' = w" by (simp add: flush_def)
  with True show ?thesis by (intro exI [of _ "[]"] exI [of _ 0]) simp
next
  case False
  obtain e0 sent where s: "sendLoop M S Src h (states w) ks (stream w) = (e0, sent)"
    by (cases "sendLoop M S Src h (states w) ks (stream w)")
  with False assms have "stream w' = sent \<and> e = e0"
    by (auto simp: flush_def split: option.splits prod.splits)
  with sendLoop_sent [OF s] show ?thesis by auto
qed

lemma batchOf_nonempty:
  "wellFormed h sts \<Longrightarrow> batchOf M Src h sts resp \<Longrightarrow>
   Frames resp \<noteq> [] \<and> (\<exists>st. sts (RefId resp) = Some st \<and> frames st \<noteq> [])"
proof -
  assume wf: "wellFormed h sts" and b: "batchOf M Src h sts resp"
  from b obtain st where st: "sts (RefId resp) = Some st"
    and c: "map Inr (Frames resp) = map (\<lambda>a. M (cells h a)) (frames st)"
    by (auto simp: batchOf_def split: option.splits)
  from wf st have "frames st \<noteq> []"
    by (auto simp: wellFormed_def openLast_def split: option.splits)
  moreover from c have "length (Frames resp) = length (frames st)"
    by (metis length_map)
  ultimately show ?thesis using st by auto
qed

lemma flush_wellFormed:
  assumes "flush M S Src ks rs h w = (e, h', w')" and "wellFormed h (states w)"
  shows "wellFormed h' (states w') \<and> dom (states w') = dom (states w) \<and>
         (nonEmptyBatches (stream w) \<longrightarrow> nonEmptyBatches (stream w'))"
proof -
  from flush_sent [OF assms(1)] obtain new where
    "stream w' = stream w @ new" "list_all (batchOf M Src h (states w)) new" by blast
  with batchOf_nonempty [OF assms(2)]
  have str: "nonEmptyBatches (stream w) \<longrightarrow> nonEmptyBatches (stream w')"
    by (auto simp: nonEmptyBatches_def list_all_iff)
  have "wellFormed h' (states w') \<and> dom (states w') = dom (states w)"
  proof (cases "count w = 0 \<or> fst (sendLoop M S Src h (states w) ks (stream w)) \<noteq> None")
    case True
    with assms have "h' = h \<and> states w' = states w"
      by (auto simp: flush_def split: if_splits prod.splits option.splits)
    with assms(2) show ?thesis by simp
  next
    case False
    with assms(1) have "resetLoop rs h (states w) = (h', states w')"
      by (auto simp: flush_def split: if_splits prod.splits option.splits)
    from resetLoop_wellFormed [OF this assms(2)] resetLoop_dom [OF this] show ?thesis by simp
  qed
  with str show ?thesis by simp
qed

lemma maybeFlush_wellFormed:
  assumes "maybeFlush M S Src ks rs h w = (e, h', w')" and "wellFormed h (states w)"
  shows "wellFormed h' (states w') \<and> dom (states w') = dom (states w) \<and>
         (nonEmptyBatches (stream w) \<longrightarrow> nonEmptyBatches (stream w'))"
proof (cases "count w < maxBatchSize")
  case True
  with assms show ?thesis by (simp add: maybeFlush_def)
next
  case False
  with assms(1) have "flush M S Src ks rs h w = (e, h', w')" by (simp add: maybeFlush_def)
  from flush_wellFormed [OF this assms(2)] show ?thesis .
qed

lemma step_wellFormed:
  assumes "step M S Src c ks rs h w = (r, h', w')" and "wellFormed h (states w)"
  shows "wellFormed h' (states w') \<and>
         dom (states w') = dom (states w) \<union> (case c of CallWriteFrame refID t \<Rightarrow> {refID} | _ \<Rightarrow> {}) \<and>
         (nonEmptyBatches (stream w) \<longrightarrow> nonEmptyBatches (stream w'))"
proof (cases c)
  case (CallWriteFrame refID t)
  let ?a = "Suc (hi h)"
  let ?h1 = "(snd (alloc h t))\<lparr>cells := (cells (snd (alloc h t)))(?a := (cells (snd (alloc h t)) ?a)\<lparr>RefID := refID\<rparr>)\<rparr>"
  let ?st = "addFrame (case states w refID of None \<Rightarrow> zeroState | Some st \<Rightarrow> st) ?a"
  let ?w3 = "w\<lparr>states := (states w)(refID \<mapsto> ?st), count := count w + Rows (cells ?h1 ?a)\<rparr>"
  from assms(1) CallWriteFrame obtain e where
    m: "maybeFlush M S Src ks rs ?h1 ?w3 = (e, h', w')"
    by (cases "maybeFlush M S Src ks rs ?h1 ?w3")
       (auto simp: alloc_def WriteFrame_def Let_def returned_def)
  have new: "openLast ?h1 ?st" by (simp add: openLast_def addFrame_def alloc_def)
  have le: "hi h \<le> hi ?h1" by (simp add: alloc_def)
  have old: "openLast ?h1 st'" if "states w k = Some st'" for k st'
    using assms(2) that openLast_mono [OF _ le] by (simp add: wellFormed_def)
  have "wellFormed ?h1 (states ?w3)"
    unfolding wellFormed_def
  proof (intro allI impI)
    fix k st' assume "states ?w3 k = Some st'"
    then show "openLast ?h1 st'"
      using new old by (cases "k = refID") auto
  qed
  from maybeFlush_wellFormed [OF m this] CallWriteFrame show ?thesis by auto
next
  case (CallWriteFrameRow refID vals)
  show ?thesis
  proof (cases "addRow h (states w refID) vals")
    case (Panicked p)
    with assms CallWriteFrameRow show ?thesis by (simp add: WriteFrameRow_def)
  next
    case (Returned x)
    obtain eo h1 where x: "x = (eo, h1)" by (cases x)
    from Returned x have hh: "hi h1 = hi h"
      by (auto simp: addRow_def split: option.splits if_splits)
    show ?thesis
    proof (cases eo)
      case (Some err)
      with assms(1) CallWriteFrameRow Returned x have "h' = h1 \<and> w' = w"
        by (simp add: WriteFrameRow_def)
      moreover from Returned x Some have "h1 = h"
        by (auto simp: addRow_def split: option.splits if_splits)
      ultimately show ?thesis using assms(2) CallWriteFrameRow by simp
    next
      case None
      with assms(1) CallWriteFrameRow Returned x obtain e where
        m: "maybeFlush M S Src ks rs h1 (w\<lparr>count := count w + 1\<rparr>) = (e, h', w')"
        by (cases "maybeFlush M S Src ks rs h1 (w\<lparr>count := count w + 1\<rparr>)")
           (auto simp: WriteFrameRow_def returned_def)
      from hh have "hi h \<le> hi h1" by simp
      then have "wellFormed h1 (states (w\<lparr>count := count w + 1\<rparr>))"
        using assms(2) openLast_mono [of h _ h1] by (simp add: wellFormed_def)
      from maybeFlush_wellFormed [OF m this] CallWriteFrameRow show ?thesis by simp
    qed
  qed
next
  case (CallWriteError refID err)
  show ?thesis
  proof (cases "states w refID")
    case None
    with assms CallWriteError show ?thesis by (simp add: WriteError_def)
  next
    case (Some st)
    let ?w1 = "w\<lparr>states := (states w)(refID \<mapsto> st\<lparr>Error := err\<rparr>), count := count w + 1\<rparr>"
    from assms(1) CallWriteError Some obtain e where
      f: "flush M S Src ks rs h ?w1 = (e, h', w')"
      by (cases "flush M S Src ks rs h ?w1") (auto simp: WriteError_def returned_def)
    from assms(2) Some have "openLast h st" by (simp add: wellFormed_def)
    then have "openLast h (st\<lparr>Error := err\<rparr>)" by (simp add: openLast_def split: option.splits)
    with assms(2) have "wellFormed h (states ?w1)"
      by (simp add: wellFormed_def)
    from flush_wellFormed [OF f this] CallWriteError Some show ?thesis by auto
  qed
next
  case CallClose
  with assms(1) obtain e where f: "flush M S Src ks rs h w = (e, h', w')"
    by (cases "flush M S Src ks rs h w") (auto simp: Close_def returned_def)
  from flush_wellFormed [OF f assms(2)] CallClose show ?thesis by simp
qed

lemma run_wellFormed:
  "run M S Src prog h w = (r, h', w') \<Longrightarrow> wellFormed h (states w) \<Longrightarrow>
   wellFormed h' (states w') \<and> dom (states w') \<subseteq> dom (states w) \<union> set (written prog) \<and>
   (nonEmptyBatches (stream w) \<longrightarrow> nonEmptyBatches (stream w'))"
proof (induction prog arbitrary: h w)
  case Nil
  then show ?case by simp
next
  case (Cons x prog)
  obtain c ks rs where x: "x = (c, ks, rs)" by (cases x)
  obtain r1 h1 w1 where s: "step M S Src c ks rs h w = (r1, h1, w1)"
    by (cases "step M S Src c ks rs h w")
  note s1 = step_wellFormed [OF s Cons.prems(2)]
  note wf1 = s1 [THEN conjunct1]
  note dom1 = s1 [THEN conjunct2, THEN conjunct1]
  note str1 = s1 [THEN conjunct2, THEN conjunct2]
  have wr: "(case c of CallWriteFrame refID t \<Rightarrow> {refID} | _ \<Rightarrow> {}) \<union> set (written prog) =
      set (written (x # prog))"
    using x by (cases c) simp_all
  have d1: "dom (states w1) \<subseteq> dom (states w) \<union> set (written (x # prog))"
    unfolding dom1 wr [symmetric] by blast
  show ?case
  proof (cases "r1 = Returned None")
    case True
    with Cons.prems(1) x s have "run M S Src prog h1 w1 = (r, h', w')" by simp
    note ih = Cons.IH [OF this wf1]
    note wf2 = ih [THEN conjunct1]
    note dom2 = ih [THEN conjunct2, THEN conjunct1]
    note str2 = ih [THEN conjunct2, THEN conjunct2]
    have "set (written prog) \<subseteq> set (written (x # prog))"
      unfolding wr [symmetric] by blast
    with dom2 d1 have "dom (states w') \<subseteq> dom (states w) \<union> set (written (x # prog))"
      by blast
    with wf2 str1 str2 show ?thesis by simp
  next
    case False
    have "h' = h1 \<and> w' = w1"
    proof (cases r1)
      case (Panicked p)
      with Cons.prems(1) x s show ?thesis by simp
    next
      case (Returned eo)
      with False obtain err where "eo = Some err" by (cases eo) auto
      with Returned Cons.prems(1) x s show ?thesis by simp
    qed
    with wf1 d1 str1 show ?thesis by simp
  qed
qed

text \<open>
  Whatever a handler has called on a new writer, and however its last call ended, every
  identifier with a state has been passed to \<open>WriteFrame\<close>, and its state has an open
  frame, which is an address of the store and the last entry of a frame list that is not
  empty. So an identifier never passed to \<open>WriteFrame\<close> has no state, and the pointers
  of the states never dangle.
\<close>

theorem handler_states_are_open:
  "run M S Src prog heap0 newChunkedDataWriter = (r, h, w) \<Longrightarrow> states w refID = Some st \<Longrightarrow>
   refID \<in> set (written prog) \<and>
   (\<exists>a. curFrame st = Some a \<and> a \<le> hi h \<and> frames st \<noteq> [] \<and> last (frames st) = a)"
proof -
  assume r: "run M S Src prog heap0 newChunkedDataWriter = (r, h, w)" and s: "states w refID = Some st"
  have "wellFormed heap0 (states (newChunkedDataWriter :: 'b chunkedDataWriter))"
    by (simp add: wellFormed_def newChunkedDataWriter_def)
  note rw = run_wellFormed [OF r this]
  from rw [THEN conjunct1] have wf: "wellFormed h (states w)" .
  from rw [THEN conjunct2, THEN conjunct1] have d: "dom (states w) \<subseteq> set (written prog)"
    by (simp add: newChunkedDataWriter_def)
  from d s have "refID \<in> set (written prog)" by blast
  moreover from wf s have "openLast h st" by (simp add: wellFormed_def)
  ultimately show ?thesis by (auto simp: openLast_def split: option.splits)
qed

theorem handler_states_are_open_witness:
  "run Inr sendOk sourceName (twoFrames ''b'') heap0 newChunkedDataWriter = (Returned None, storeAB ''b'', writerAB) \<and>
   states writerAB ''A'' = Some (openState 1) \<and>
   ''A'' \<in> set (written (twoFrames ''b'')) \<and>
   (\<exists>a. curFrame (openState 1) = Some a \<and> a \<le> hi (storeAB ''b'') \<and>
        frames (openState 1) \<noteq> [] \<and> last (frames (openState 1)) = a)"
proof -
  have r: "run Inr sendOk sourceName (twoFrames ''b'') heap0 newChunkedDataWriter =
      (Returned None, storeAB ''b'', writerAB)"
    by (rule storeAB_writerAB_reached)
  have s: "states writerAB ''A'' = Some (openState 1)" by (simp add: examples)
  from handler_states_are_open [OF r s] r s show ?thesis by simp
qed

section \<open>Appending a row\<close>

text \<open>
  C8. When the identifier has an open frame and the number of values differs from the
  number of columns of that frame, \<open>WriteFrameRow\<close> returns the field count mismatch
  error, and neither the store (so the open frame, its columns and rows) nor the writer
  is changed.
\<close>

theorem WriteFrameRow_field_count_mismatch:
  "states w refID = Some st \<Longrightarrow> curFrame st = Some a \<Longrightarrow>
   length vals \<noteq> length (Fields (cells h a)) \<Longrightarrow>
   WriteFrameRow M S Src ks rs refID vals h w =
     (Returned (Some (ErrFieldCount (length vals) (length (Fields (cells h a))))), h, w)"
  by (simp add: WriteFrameRow_def addRow_def)

text \<open>
  The theorem at the writer reached by two \<open>WriteFrame\<close> calls: two values for the
  one-column frame of \<open>A\<close>.
\<close>

theorem WriteFrameRow_field_count_mismatch_witness:
  "states writerAB ''A'' = Some (openState 1) \<and> curFrame (openState 1) = Some 1 \<and>
   length [5, 6 :: nat] \<noteq> length (Fields (cells (storeAB ''b'') 1)) \<and>
   WriteFrameRow Inr sendOk sourceName [''A'', ''B''] [''A'', ''B''] ''A'' [5, 6] (storeAB ''b'') writerAB =
     (Returned (Some (ErrFieldCount 2 1)), storeAB ''b'', writerAB)"
  using WriteFrameRow_field_count_mismatch
    [of writerAB "''A''" "openState 1" 1 "[5, 6]" "storeAB ''b''" Inr sendOk sourceName
        "[''A'', ''B'']" "[''A'', ''B'']"]
  by (simp add: examples)

text \<open>
  C4. On a writer that has never seen the identifier, \<open>WriteFrameRow\<close> reads the state
  through a nil pointer: the call panics and returns no error value. The writer and the
  store are left as they were.
\<close>

theorem WriteFrameRow_unknown_identifier_panics:
  "WriteFrameRow M S Src ks rs ''A'' [v] heap0 newChunkedDataWriter =
     (Panicked NilDereference, heap0, newChunkedDataWriter)"
  by (simp add: WriteFrameRow_def addRow_def newChunkedDataWriter_def)

section \<open>Reporting an error\<close>

text \<open>
  C9. When the writer holds no state for the identifier, \<open>WriteError\<close> panics with a nil
  pointer dereference: it returns no error value, creates no state and sends nothing. This
  is so for every identifier that the handler has not passed to \<open>WriteFrame\<close> before,
  whatever else it has called on the writer.
\<close>

theorem WriteError_without_state_panics:
  "(states w refID = None \<longrightarrow>
      WriteError M S Src ks rs refID err h w = (Panicked NilDereference, h, w)) \<and>
   (run M S Src prog heap0 newChunkedDataWriter = (r, h', w') \<and> refID \<notin> set (written prog) \<longrightarrow>
      WriteError M S Src ks rs refID err h' w' = (Panicked NilDereference, h', w'))"
proof (intro conjI impI)
  assume "states w refID = None"
  then show "WriteError M S Src ks rs refID err h w = (Panicked NilDereference, h, w)"
    by (simp add: WriteError_def)
next
  assume a: "run M S Src prog heap0 newChunkedDataWriter = (r, h', w') \<and> refID \<notin> set (written prog)"
  have "states w' refID = None"
  proof (cases "states w' refID")
    case None
    then show ?thesis .
  next
    case (Some st)
    with a handler_states_are_open [of M S Src prog r h' w' refID st] show ?thesis by simp
  qed
  then show "WriteError M S Src ks rs refID err h' w' = (Panicked NilDereference, h', w')"
    by (simp add: WriteError_def)
qed

theorem WriteError_without_state_panics_witness:
  "states (newChunkedDataWriter :: nat frame chunkedDataWriter) ''B'' = None \<and>
   WriteError Inr sendOk sourceName [] [] ''B'' (Some (ErrOther ''boom'')) (heap0 :: nat heap)
       (newChunkedDataWriter :: nat frame chunkedDataWriter) =
     (Panicked NilDereference, heap0, newChunkedDataWriter) \<and>
   run Inr sendOk sourceName (twoFrames ''b'') heap0 newChunkedDataWriter = (Returned None, storeAB ''b'', writerAB) \<and>
   ''C'' \<notin> set (written (twoFrames ''b'')) \<and>
   WriteError Inr sendOk sourceName [''A'', ''B''] [''A'', ''B''] ''C'' (Some (ErrOther ''boom'')) (storeAB ''b'') writerAB =
     (Panicked NilDereference, storeAB ''b'', writerAB)"
proof -
  have n: "states (newChunkedDataWriter :: nat frame chunkedDataWriter) ''B'' = None"
    by (simp add: newChunkedDataWriter_def)
  have r: "run Inr sendOk sourceName (twoFrames ''b'') heap0 newChunkedDataWriter =
      (Returned None, storeAB ''b'', writerAB) \<and> ''C'' \<notin> set (written (twoFrames ''b''))"
    by (simp add: storeAB_writerAB_reached) (simp add: twoFrames_def)
  from WriteError_without_state_panics
      [of "newChunkedDataWriter :: nat frame chunkedDataWriter" "''B''" Inr sendOk sourceName "[]" "[]"
          "Some (ErrOther ''boom'')" "heap0 :: nat heap"] n
  have 1: "WriteError Inr sendOk sourceName [] [] ''B'' (Some (ErrOther ''boom'')) (heap0 :: nat heap)
       (newChunkedDataWriter :: nat frame chunkedDataWriter) =
     (Panicked NilDereference, heap0, newChunkedDataWriter)"
    by simp
  from WriteError_without_state_panics
      [where M = Inr and S = sendOk and Src = sourceName and prog = "twoFrames ''b''" and r = "Returned None"
         and h' = "storeAB ''b''" and w' = writerAB and refID = "''C''"
         and ks = "[''A'', ''B'']" and rs = "[''A'', ''B'']" and err = "Some (ErrOther ''boom'')"] r
  have 2: "WriteError Inr sendOk sourceName [''A'', ''B''] [''A'', ''B''] ''C'' (Some (ErrOther ''boom''))
       (storeAB ''b'') writerAB = (Panicked NilDereference, storeAB ''b'', writerAB)"
    by simp
  from n r 1 2 show ?thesis by simp
qed

section \<open>Flushing: what is sent\<close>

text \<open>
  A flush that finds the counter at zero sends nothing and changes nothing: \<open>Close\<close>
  on such a writer returns nil, with the store and the writer as they were.
\<close>

theorem Close_without_pending_rows:
  "count w = 0 \<Longrightarrow> Close M S Src ks rs h w = (Returned None, h, w)"
  by (simp add: Close_def flush_def returned_def)

theorem Close_without_pending_rows_witness:
  "count (newChunkedDataWriter :: nat frame chunkedDataWriter) = 0 \<and>
   Close Inr sendOk sourceName [] [] (heap0 :: nat heap) (newChunkedDataWriter :: nat frame chunkedDataWriter) =
     (Returned None, heap0, newChunkedDataWriter)"
  using Close_without_pending_rows
    [of "newChunkedDataWriter :: nat frame chunkedDataWriter" Inr sendOk sourceName "[]" "[]" "heap0 :: nat heap"]
  by (simp add: newChunkedDataWriter_def)

lemma encodeFrames_length:
  "encodeFrames M h fs out = Inr encs \<Longrightarrow> length encs = length out + length fs"
  by (induction fs arbitrary: out) (auto split: sum.splits)

lemma sendLoop_append:
  "sendLoop M S Src h sts (pre @ post) sent =
     (case sendLoop M S Src h sts pre sent of
        (None, sent1) \<Rightarrow> sendLoop M S Src h sts post sent1
      | (Some e, sent1) \<Rightarrow> (Some e, sent1))"
  by (induction pre arbitrary: sent) (auto split: option.splits sum.splits)

lemma sendLoop_success:
  "sendLoop M S Src h sts ks sent = (None, sent') \<Longrightarrow> set ks \<subseteq> dom sts \<Longrightarrow>
   \<exists>new. sent' = sent @ new \<and> map RefId new = ks \<and>
     (\<forall>r\<in>set new. \<exists>st. sts (RefId r) = Some st \<and> length (Frames r) = length (frames st))"
proof (induction ks arbitrary: sent)
  case Nil
  then show ?case by simp
next
  case (Cons k ks)
  from Cons.prems(2) obtain st where st: "sts k = Some st" by auto
  with Cons.prems(1) obtain encs where
    enc: "encodeFrames M h (frames st) [] = Inr encs" and
    rest: "sendLoop M S Src h sts ks (sent @ [response Src k st encs]) = (None, sent')"
    by (auto split: sum.splits option.splits)
  from Cons.IH [OF rest] Cons.prems(2) obtain new where
    new: "sent' = (sent @ [response Src k st encs]) @ new" "map RefId new = ks"
      "\<forall>r\<in>set new. \<exists>st. sts (RefId r) = Some st \<and> length (Frames r) = length (frames st)"
    by auto
  have "length (Frames (response Src k st encs)) = length (frames st)"
    using encodeFrames_length [OF enc] by (simp add: response_def)
  with new st show ?case
    by (intro exI [of _ "response Src k st encs # new"]) (simp add: response_def)
qed



section \<open>Flushing: a frame that cannot be encoded\<close>

text \<open>
  C2, as the code has it. The loop encodes and sends one identifier after the other. When
  a frame of identifier \<open>k\<close> cannot be encoded, the flush returns that error and leaves
  the store, the states and the counter as they were; it sends nothing for \<open>k\<close> and for
  the identifiers \<open>post\<close> that the iteration would visit after it, but the responses of
  the identifiers \<open>pre\<close> visited before \<open>k\<close> have been sent, one each.
\<close>

theorem flush_marshal_failure_keeps_sent_batches:
  "count w \<noteq> 0 \<Longrightarrow> set pre \<subseteq> dom (states w) \<Longrightarrow>
   sendLoop M S Src h (states w) pre (stream w) = (None, sent) \<Longrightarrow>
   states w k = Some st \<Longrightarrow> encodeFrames M h (frames st) [] = Inl err \<Longrightarrow>
   flush M S Src (pre @ k # post) rs h w = (Some err, h, w\<lparr>stream := sent\<rparr>) \<and>
   (\<exists>new. sent = stream w @ new \<and> map RefId new = pre)"
proof -
  assume c: "count w \<noteq> 0" and d: "set pre \<subseteq> dom (states w)"
    and s: "sendLoop M S Src h (states w) pre (stream w) = (None, sent)"
    and k: "states w k = Some st" and e: "encodeFrames M h (frames st) [] = Inl err"
  have "sendLoop M S Src h (states w) (pre @ k # post) (stream w) = (Some err, sent)"
    by (simp add: sendLoop_append s k e)
  with c have "flush M S Src (pre @ k # post) rs h w = (Some err, h, w\<lparr>stream := sent\<rparr>)"
    by (simp add: flush_def)
  moreover from sendLoop_success [OF s d] have "\<exists>new. sent = stream w @ new \<and> map RefId new = pre"
    by blast
  ultimately show ?thesis by simp
qed

theorem flush_marshal_failure_keeps_sent_batches_witness:
  "count writerAB \<noteq> 0 \<and> set [''A''] \<subseteq> dom (states writerAB) \<and>
   sendLoop (marshalUnless ''bad'') sendOk sourceName (storeAB ''bad'') (states writerAB) [''A''] (stream writerAB) =
     (None, [batch ''A'' [NewFrame '''', (table1 ''a'' [1])\<lparr>RefID := ''A''\<rparr>]]) \<and>
   states writerAB ''B'' = Some (openState 2) \<and>
   encodeFrames (marshalUnless ''bad'') (storeAB ''bad'') (frames (openState 2)) [] =
     Inl (ErrOther ''cannot marshal'') \<and>
   flush (marshalUnless ''bad'') sendOk sourceName ([''A''] @ ''B'' # []) [''A'', ''B''] (storeAB ''bad'') writerAB =
     (Some (ErrOther ''cannot marshal''), storeAB ''bad'',
      writerAB\<lparr>stream := [batch ''A'' [NewFrame '''', (table1 ''a'' [1])\<lparr>RefID := ''A''\<rparr>]]\<rparr>) \<and>
   (\<exists>new. [batch ''A'' [NewFrame '''', (table1 ''a'' [1])\<lparr>RefID := ''A''\<rparr>]] = stream writerAB @ new \<and>
          map RefId new = [''A''])"
proof -
  have c: "count writerAB \<noteq> 0" by (simp add: examples)
  have d: "set [''A''] \<subseteq> dom (states writerAB)" by (simp add: examples)
  have s: "sendLoop (marshalUnless ''bad'') sendOk sourceName (storeAB ''bad'') (states writerAB) [''A''] (stream writerAB) =
     (None, [batch ''A'' [NewFrame '''', (table1 ''a'' [1])\<lparr>RefID := ''A''\<rparr>]])"
    by (simp add: examples response_def)
  have k: "states writerAB ''B'' = Some (openState 2)" by (simp add: examples)
  have e: "encodeFrames (marshalUnless ''bad'') (storeAB ''bad'') (frames (openState 2)) [] =
     Inl (ErrOther ''cannot marshal'')"
    by (simp add: examples)
  from flush_marshal_failure_keeps_sent_batches [OF c d s k e, of "[]" "[''A'', ''B'']"] c d s k e
  show ?thesis by blast
qed

text \<open>
  The claim C2 fails: the handler opens \<open>A\<close> and \<open>B\<close>, the frame of \<open>B\<close> cannot be
  encoded, and \<open>Close\<close> returns the codec's error after the response of \<open>A\<close> went out.
\<close>

theorem flush_not_atomic_counterexample:
  "(case run (marshalUnless ''bad'') sendOk sourceName
           (twoFrames ''bad'' @ [(CallClose, [''A'', ''B''], [''A'', ''B''])])
           heap0 newChunkedDataWriter of
      (r, h, w) \<Rightarrow> (r, map RefId (stream w))) =
   (Returned (Some (ErrOther ''cannot marshal'')), [''A''])"
  by (simp add: examples writer_defs)
section \<open>Flushing: the reset of the states\<close>

lemma Rows_EmptyCopy: "Rows (EmptyCopy f) = 0"
  by (cases "Fields f") (simp_all add: Rows_def EmptyCopy_def)

lemma reset_store:
  "reset h st = (h', st') \<Longrightarrow> hi h \<le> hi h' \<and> (\<forall>b\<le>hi h. cells h' b = cells h b)"
  by (auto simp: reset_def alloc_def split: option.splits)

lemma resetLoop_store:
  "resetLoop rs h sts = (h', sts') \<Longrightarrow> hi h \<le> hi h' \<and> (\<forall>b\<le>hi h. cells h' b = cells h b)"
proof (induction rs arbitrary: h sts)
  case Nil
  then show ?case by simp
next
  case (Cons k rs)
  show ?case
  proof (cases "sts k")
    case None
    with Cons show ?thesis by simp
  next
    case (Some st)
    obtain h1 st1 where r: "reset h st = (h1, st1)" by (cases "reset h st")
    with Some Cons.prems have "resetLoop rs h1 (sts(k \<mapsto> st1)) = (h', sts')" by simp
    from Cons.IH [OF this] reset_store [OF r] show ?thesis by auto
  qed
qed

lemma resetLoop_other:
  "k \<notin> set rs \<Longrightarrow> resetLoop rs h sts = (h', sts') \<Longrightarrow> sts' k = sts k"
  by (induction rs arbitrary: h sts) (auto split: option.splits prod.splits)

lemma reset_wasReset:
  "reset h st = (h1, st1) \<Longrightarrow> wasReset h h1 st (Some st1)"
  by (auto simp: reset_def alloc_def wasReset_def Rows_EmptyCopy markerFrame_def split: option.splits)

lemma wasReset_later:
  assumes "wasReset h h1 st new" and "hi h1 \<le> hi h2" and "\<forall>b\<le>hi h1. cells h2 b = cells h1 b"
  shows "wasReset h h2 st new"
  using assms by (cases "curFrame st") (auto simp: wasReset_def)

lemma wasReset_earlier:
  assumes "wasReset h1 h2 st new" and "hi h \<le> hi h1" and "\<forall>b\<le>hi h. cells h1 b = cells h b"
    and "\<forall>a. curFrame st = Some a \<longrightarrow> a \<le> hi h"
  shows "wasReset h h2 st new"
  using assms by (cases "curFrame st") (auto simp: wasReset_def)

lemma resetLoop_key:
  "distinct rs \<Longrightarrow> k \<in> set rs \<Longrightarrow> sts k = Some st \<Longrightarrow>
   (\<forall>k st a. sts k = Some st \<and> curFrame st = Some a \<longrightarrow> a \<le> hi h) \<Longrightarrow>
   resetLoop rs h sts = (h', sts') \<Longrightarrow> wasReset h h' st (sts' k)"
proof (induction rs arbitrary: h sts)
  case Nil
  then show ?case by simp
next
  case (Cons k0 rs)
  show ?case
  proof (cases "sts k0")
    case None
    with Cons.prems have "k \<noteq> k0" by auto
    with Cons None show ?thesis by simp
  next
    case (Some st0)
    obtain h1 st1 where r: "reset h st0 = (h1, st1)" by (cases "reset h st0")
    with Some Cons.prems have l: "resetLoop rs h1 (sts(k0 \<mapsto> st1)) = (h', sts')" by simp
    note s1 = reset_store [OF r]
    note s2 = resetLoop_store [OF l]
    show ?thesis
    proof (cases "k = k0")
      case True
      with Cons.prems Some have "st0 = st" by simp
      from Cons.prems(1) True have "k \<notin> set rs" by simp
      from resetLoop_other [OF this l] True have "sts' k = Some st1" by simp
      moreover have "wasReset h h1 st (Some st1)"
        using reset_wasReset [OF r] \<open>st0 = st\<close> by simp
      ultimately show ?thesis using wasReset_later s2 by metis
    next
      case False
      with Cons.prems have in_rs: "k \<in> set rs" and d: "distinct rs" by auto
      have k1: "(sts(k0 \<mapsto> st1)) k = Some st" using False Cons.prems(3) by simp
      have valid: "\<forall>k st a. (sts(k0 \<mapsto> st1)) k = Some st \<and> curFrame st = Some a \<longrightarrow> a \<le> hi h1"
      proof (intro allI impI)
        fix k' st' a assume a: "(sts(k0 \<mapsto> st1)) k' = Some st' \<and> curFrame st' = Some a"
        show "a \<le> hi h1"
        proof (cases "k' = k0")
          case True
          with a r show ?thesis by (auto simp: reset_def alloc_def zeroState_def split: option.splits)
        next
          case False
          with a Cons.prems(4) have "a \<le> hi h" by auto
          with s1 show ?thesis by simp
        qed
      qed
      from Cons.IH [OF d in_rs k1 valid l] have "wasReset h1 h' st (sts' k)" .
      moreover from Cons.prems(3,4) have "\<forall>a. curFrame st = Some a \<longrightarrow> a \<le> hi h" by blast
      ultimately show ?thesis using wasReset_earlier s1 by metis
    qed
  qed
qed

text \<open>
  C7, as the code has it. After a flush that found pending rows (the counter was not
  zero) and returned no error, the counter is zero, no frame that existed before has
  changed, and every identifier \<open>refID\<close> of the map has been reset: with no open frame its
  state is the zero state; with the open frame \<open>a\<close> its frame list holds exactly one
  address \<open>a'\<close>, which is also its open frame, \<open>a'\<close> is a new object (not an address of
  the store before the flush, so not the marker), and it holds the empty copy of the frame
  that was open, with no rows; error, status and error source are cleared. What the flush
  has sent is one response per identifier, each with the encodings of the frames of the
  identifier's list as it was, one by one and in order: a marker goes out exactly where
  \<open>WriteFrame\<close> has put one into the list, and the list that the flush leaves holds none.
  The flush that \<open>maybeFlush\<close> makes at the threshold is such a flush. The pointers of the
  states are addresses of the store, as they are in Go and in every state that a handler
  reaches (\<open>handler_states_are_open\<close>).
\<close>

theorem flush_resets_every_state:
  "flush M S Src ks rs h w = (None, h', w') \<Longrightarrow> count w \<noteq> 0 \<Longrightarrow>
   range_of (states w) ks \<Longrightarrow> range_of (states w) rs \<Longrightarrow>
   (\<forall>k st a. states w k = Some st \<and> curFrame st = Some a \<longrightarrow> a \<le> hi h) \<Longrightarrow>
   states w refID = Some st \<Longrightarrow>
   count w' = 0 \<and> (\<forall>b\<le>hi h. cells h' b = cells h b) \<and>
   (case curFrame st of
      None \<Rightarrow> states w' refID = Some zeroState
    | Some a \<Rightarrow>
        (\<exists>a'. states w' refID = Some (zeroState\<lparr>frames := [a'], curFrame := Some a'\<rparr>) \<and>
              hi h < a' \<and> a' \<le> hi h' \<and> a' \<noteq> markerFrame \<and>
              cells h' a' = EmptyCopy (cells h a) \<and> Rows (cells h' a') = 0)) \<and>
   (\<exists>new. stream w' = stream w @ new \<and> map RefId new = ks \<and>
          list_all (batchOf M Src h (states w)) new) \<and>
   (maxBatchSize \<le> count w \<longrightarrow> maybeFlush M S Src ks rs h w = (None, h', w'))"
proof -
  assume f: "flush M S Src ks rs h w = (None, h', w')" and c: "count w \<noteq> 0"
    and k: "range_of (states w) ks" and r: "range_of (states w) rs"
    and v: "\<forall>k st a. states w k = Some st \<and> curFrame st = Some a \<longrightarrow> a \<le> hi h"
    and s: "states w refID = Some st"
  from f c have l: "resetLoop rs h (states w) = (h', states w')" and w': "count w' = 0"
    by (auto simp: flush_def split: prod.splits option.splits)
  from r s have d: "distinct rs" and m: "refID \<in> set rs" by (auto simp: range_of_def)
  from resetLoop_key [OF d m s v l] have reset: "wasReset h h' st (states w' refID)" .
  from flush_sent [OF f] c obtain new where
    n: "stream w' = stream w @ new" "list_all (batchOf M Src h (states w)) new"
      "map RefId new = filter (\<lambda>k. states w k \<noteq> None) ks"
    by auto
  from k have "\<forall>k\<in>set ks. states w k \<noteq> None" by (auto simp: range_of_def)
  then have "filter (\<lambda>k. states w k \<noteq> None) ks = ks" by simp
  with n have sent: "\<exists>new. stream w' = stream w @ new \<and> map RefId new = ks \<and>
          list_all (batchOf M Src h (states w)) new"
    by auto
  from f have mf: "maxBatchSize \<le> count w \<longrightarrow> maybeFlush M S Src ks rs h w = (None, h', w')"
    by (simp add: maybeFlush_def)
  from reset have "case curFrame st of
      None \<Rightarrow> states w' refID = Some zeroState
    | Some a \<Rightarrow>
        (\<exists>a'. states w' refID = Some (zeroState\<lparr>frames := [a'], curFrame := Some a'\<rparr>) \<and>
              hi h < a' \<and> a' \<le> hi h' \<and> a' \<noteq> markerFrame \<and>
              cells h' a' = EmptyCopy (cells h a) \<and> Rows (cells h' a') = 0)"
    by (simp add: wasReset_def)
  with w' resetLoop_store [OF l] sent mf show ?thesis by (intro conjI) simp_all
qed

text \<open>
  The theorem at the flush that \<open>WriteFrame\<close> makes for a frame of 1000 rows; and the
  whole handler: the frame, one more row, \<open>Close\<close>. The first response carries the marker
  and the frame, the second the continuation with the row and no marker.
\<close>

theorem flush_resets_every_state_witness:
  "flush Inr sendOk sourceName [''A''] [''A''] storeFull writerFull =
     (None, fst (snd (flush Inr sendOk sourceName [''A''] [''A''] storeFull writerFull)),
            snd (snd (flush Inr sendOk sourceName [''A''] [''A''] storeFull writerFull))) \<and>
   count writerFull \<noteq> 0 \<and> range_of (states writerFull) [''A''] \<and>
   states writerFull ''A'' = Some (openState 1) \<and> curFrame (openState 1) = Some 1 \<and>
   maxBatchSize \<le> count writerFull \<and>
   count (snd (snd (flush Inr sendOk sourceName [''A''] [''A''] storeFull writerFull))) = 0 \<and>
   (\<exists>a'. states (snd (snd (flush Inr sendOk sourceName [''A''] [''A''] storeFull writerFull))) ''A'' =
            Some (zeroState\<lparr>frames := [a'], curFrame := Some a'\<rparr>) \<and>
         hi storeFull < a' \<and> a' \<noteq> markerFrame \<and>
         cells (fst (snd (flush Inr sendOk sourceName [''A''] [''A''] storeFull writerFull))) a' =
           EmptyCopy (cells storeFull 1)) \<and>
   (\<exists>new. stream (snd (snd (flush Inr sendOk sourceName [''A''] [''A''] storeFull writerFull))) =
            stream writerFull @ new \<and> map RefId new = [''A''] \<and>
          list_all (batchOf Inr sourceName storeFull (states writerFull)) new) \<and>
   maybeFlush Inr sendOk sourceName [''A''] [''A''] storeFull writerFull =
     (None, fst (snd (flush Inr sendOk sourceName [''A''] [''A''] storeFull writerFull)),
            snd (snd (flush Inr sendOk sourceName [''A''] [''A''] storeFull writerFull))) \<and>
   (case run Inr sendOk sourceName thresholdFlush heap0 newChunkedDataWriter of
      (r, h, w) \<Rightarrow> (r, map Frames (stream w))) =
     (Returned None,
      [[NewFrame '''', (table1 ''a'' (replicate 1000 7))\<lparr>RefID := ''A''\<rparr>],
       [(table1 ''a'' [5])\<lparr>RefID := ''A''\<rparr>]])"
proof -
  let ?h' = "fst (snd (flush Inr sendOk sourceName [''A''] [''A''] storeFull writerFull))"
  let ?w' = "snd (snd (flush Inr sendOk sourceName [''A''] [''A''] storeFull writerFull))"
  have f: "flush Inr sendOk sourceName [''A''] [''A''] storeFull writerFull = (None, ?h', ?w')"
    by (simp add: examples storeFull_def writerFull_def writer_defs)
  have c: "count writerFull \<noteq> 0" by (simp add: writerFull_def)
  have r: "range_of (states writerFull) [''A'']"
    by (auto simp: writerFull_def range_of_def split: if_splits)
  have v: "\<forall>k st a. states writerFull k = Some st \<and> curFrame st = Some a \<longrightarrow> a \<le> hi storeFull"
    by (auto simp: examples storeFull_def writerFull_def split: if_splits)
  have s: "states writerFull ''A'' = Some (openState 1)" by (simp add: writerFull_def)
  have o: "curFrame (openState 1) = Some 1" by (simp add: examples)
  have m: "maxBatchSize \<le> count writerFull" by (simp add: writerFull_def maxBatchSize_def)
  have e: "(case run Inr sendOk sourceName thresholdFlush heap0 newChunkedDataWriter of
      (r, h, w) \<Rightarrow> (r, map Frames (stream w))) =
     (Returned None,
      [[NewFrame '''', (table1 ''a'' (replicate 1000 7))\<lparr>RefID := ''A''\<rparr>],
       [(table1 ''a'' [5])\<lparr>RefID := ''A''\<rparr>]])"
    by (simp add: thresholdFlush_def examples writer_defs)
  note t = flush_resets_every_state [OF f c r r v s]
  from t [THEN conjunct1] have 1: "count ?w' = 0" .
  from t [THEN conjunct2, THEN conjunct2, THEN conjunct1] o
  have 2: "\<exists>a'. states ?w' ''A'' = Some (zeroState\<lparr>frames := [a'], curFrame := Some a'\<rparr>) \<and>
         hi storeFull < a' \<and> a' \<noteq> markerFrame \<and> cells ?h' a' = EmptyCopy (cells storeFull 1)"
    by auto
  note 3 = t [THEN conjunct2, THEN conjunct2, THEN conjunct2, THEN conjunct1]
  from t [THEN conjunct2, THEN conjunct2, THEN conjunct2, THEN conjunct2] m
  have 4: "maybeFlush Inr sendOk sourceName [''A''] [''A''] storeFull writerFull = (None, ?h', ?w')"
    by simp
  from f c r s o m 1 2 3 4 e show ?thesis by (intro conjI)
qed

text \<open>
  The claim C7 speaks of every flush that succeeds. A flush that finds the counter at zero
  returns nil at once and resets nothing: after \<open>WriteFrame\<close> of a frame without rows,
  \<open>Close\<close> succeeds, sends nothing, and the frame list still holds the marker and the
  frame.
\<close>

theorem flush_without_pending_rows_counterexample:
  "(case run Inr sendOk sourceName
           [(CallWriteFrame ''A'' (table1 ''a'' []), [''A''], [''A'']),
            (CallClose, [''A''], [''A''])]
           heap0 (newChunkedDataWriter :: nat frame chunkedDataWriter) of
      (r, h, w) \<Rightarrow> (r, map_option frames (states w ''A''), stream w)) =
   (Returned None, Some [markerFrame, 1], [])"
  by (simp add: examples writer_defs)

section \<open>The reassembler: merging a fragment\<close>

lemma frameLoop_append:
  "frameLoop U pre h st = Returned (Inr (h1, st1)) \<Longrightarrow>
   frameLoop U (pre @ rest) h st = frameLoop U rest h1 st1"
  by (induction pre arbitrary: h st) (auto split: outcome.splits sum.splits)

lemma recvLoop_append:
  "received U before h sbr = Returned (Inr (h1, sbr1)) \<Longrightarrow>
   recvLoop U (before @ rest) fin h sbr = recvLoop U rest fin h1 sbr1"
  by (induction before arbitrary: h sbr) (auto split: outcome.splits sum.splits)

lemma mergeFields_fits:
  "length gs \<le> length cs \<Longrightarrow>
   mergeFields cs gs = Returned (map2 AppendAll (take (length gs) cs) gs @ drop (length gs) cs)"
  by (induction cs gs rule: mergeFields.induct) auto

lemma mergeFields_overflow:
  "length cs < length gs \<Longrightarrow> mergeFields cs gs = Panicked IndexOutOfRange"
  by (induction cs gs rule: mergeFields.induct) auto

lemma mergeFields_first_column:
  "mergeFields cs gs = Returned cs' \<Longrightarrow>
   (case cs of [] \<Rightarrow> 0 | c # _ \<Rightarrow> length (vector c)) \<le>
   (case cs' of [] \<Rightarrow> 0 | c # _ \<Rightarrow> length (vector c))"
  by (cases "(cs, gs)" rule: mergeFields.cases) (auto simp: AppendAll_def split: outcome.splits)

text \<open>
  C3, as the code has it. The merge compares no column counts and has no schema error.
  With an open frame \<open>c\<close> and an incoming fragment \<open>fv\<close> that has rows: when \<open>fv\<close> has at
  most as many columns as the open frame, each column of \<open>fv\<close> is appended to the column
  of the open frame at the same index, the further columns of the open frame stay as they
  are, and the step goes on without an error; when \<open>fv\<close> has more columns, the step
  panics with an index out of range, and so does \<open>QueryChunkedData\<close> wherever its loop
  reaches this step: after any responses \<open>before\<close>, after any fragments \<open>pre\<close> of the same
  response, and whatever fragments and responses would follow. No table of any identifier
  is returned.
\<close>

theorem frameStep_merge_without_check:
  "U frame = Inr fv \<Longrightarrow> Rows fv \<noteq> 0 \<Longrightarrow> recvCurFrame st = Some c \<Longrightarrow> c \<le> hi h \<Longrightarrow>
   (length (Fields fv) \<le> length (Fields (cells h c)) \<longrightarrow>
      frameStep U frame h st =
        Returned (Inr ((snd (alloc h fv))\<lparr>cells := (cells (snd (alloc h fv)))
           (c := (cells h c)\<lparr>Fields :=
              map2 AppendAll (take (length (Fields fv)) (Fields (cells h c))) (Fields fv)
                @ drop (length (Fields fv)) (Fields (cells h c))\<rparr>)\<rparr>, st))) \<and>
   (length (Fields (cells h c)) < length (Fields fv) \<longrightarrow>
      frameStep U frame h st = Panicked IndexOutOfRange \<and>
      (received U before h0 Map.empty = Returned (Inr (h1, stateByRefID)) \<and>
       frameLoop U pre h1
         (case stateByRefID (RefId sr) of None \<Rightarrow> zeroStreamState | Some s \<Rightarrow> s) =
           Returned (Inr (h, st)) \<and>
       Frames sr = pre @ frame # others \<longrightarrow>
         QueryChunkedData U (Inr (before @ sr # msgs, fin)) h0 = Panicked IndexOutOfRange))"
proof (intro conjI impI)
  assume a: "U frame = Inr fv" "Rows fv \<noteq> 0" "recvCurFrame st = Some c" "c \<le> hi h"
  {
    assume "length (Fields fv) \<le> length (Fields (cells h c))"
    with a show "frameStep U frame h st =
        Returned (Inr ((snd (alloc h fv))\<lparr>cells := (cells (snd (alloc h fv)))
           (c := (cells h c)\<lparr>Fields :=
              map2 AppendAll (take (length (Fields fv)) (Fields (cells h c))) (Fields fv)
                @ drop (length (Fields fv)) (Fields (cells h c))\<rparr>)\<rparr>, st))"
      by (auto simp: frameStep_def alloc_def mergeFields_fits)
  }
  {
    assume "length (Fields (cells h c)) < length (Fields fv)"
    with a show p: "frameStep U frame h st = Panicked IndexOutOfRange"
      by (auto simp: frameStep_def alloc_def mergeFields_overflow)
    assume r: "received U before h0 Map.empty = Returned (Inr (h1, stateByRefID)) \<and>
       frameLoop U pre h1
         (case stateByRefID (RefId sr) of None \<Rightarrow> zeroStreamState | Some s \<Rightarrow> s) =
           Returned (Inr (h, st)) \<and>
       Frames sr = pre @ frame # others"
    then have "frameLoop U (Frames sr) h1
         (case stateByRefID (RefId sr) of None \<Rightarrow> zeroStreamState | Some s \<Rightarrow> s) =
        frameLoop U (frame # others) h st"
      by (simp add: frameLoop_append)
    with p have "recvLoop U (sr # msgs) fin h1 stateByRefID = Panicked IndexOutOfRange"
      by simp
    with r show "QueryChunkedData U (Inr (before @ sr # msgs, fin)) h0 = Panicked IndexOutOfRange"
      by (simp add: QueryChunkedData_def recvLoop_append)
  }
qed

text \<open>
  The theorem at an open frame of two columns and a fragment of one column, which is
  merged into the first column; and in a stream where the second response of \<open>A\<close> brings,
  after a fragment that is merged, a fragment of two columns for the open table of one
  column: the call panics, whatever the third response holds.
\<close>

theorem frameStep_merge_without_check_witness:
  "Rows (table1 ''f'' [9]) \<noteq> 0 \<and>
   recvCurFrame \<lparr>recvFrames = [1], recvCurFrame = Some 1\<rparr> = Some 1 \<and>
   1 \<le> hi (storeAB ''b'') \<and>
   length (Fields (table1 ''f'' [9])) \<le> length (Fields (cells (storeAB ''b'') 1)) \<and>
   frameStep Inr (table1 ''f'' [9]) (storeAB ''b'') \<lparr>recvFrames = [1], recvCurFrame = Some 1\<rparr> =
     Returned (Inr ((snd (alloc (storeAB ''b'') (table1 ''f'' [9])))
        \<lparr>cells := (cells (snd (alloc (storeAB ''b'') (table1 ''f'' [9]))))
           (1 := (table1 ''a'' [1, 9])\<lparr>RefID := ''A''\<rparr>)\<rparr>,
        \<lparr>recvFrames = [1], recvCurFrame = Some 1\<rparr>)) \<and>
   Rows (table2 ''g'' [7] [8]) \<noteq> 0 \<and>
   length (Fields (table1 ''t'' [1, 2])) < length (Fields (table2 ''g'' [7] [8])) \<and>
   received Inr [batch ''A'' [table1 ''t'' [1]]] heap0 Map.empty =
     Returned (Inr (snd (alloc heap0 (table1 ''t'' [1])),
                    [''A'' \<mapsto> \<lparr>recvFrames = [1], recvCurFrame = Some 1\<rparr>])) \<and>
   frameLoop Inr [table1 ''t'' [2]] (snd (alloc heap0 (table1 ''t'' [1])))
       \<lparr>recvFrames = [1], recvCurFrame = Some 1\<rparr> =
     Returned (Inr ((snd (alloc (snd (alloc heap0 (table1 ''t'' [1]))) (table1 ''t'' [2])))
        \<lparr>cells := (cells (snd (alloc (snd (alloc heap0 (table1 ''t'' [1]))) (table1 ''t'' [2]))))
           (1 := table1 ''t'' [1, 2])\<rparr>,
        \<lparr>recvFrames = [1], recvCurFrame = Some 1\<rparr>)) \<and>
   QueryChunkedData Inr
     (Inr ([batch ''A'' [table1 ''t'' [1]]] @
           batch ''A'' [table1 ''t'' [2], table2 ''g'' [7] [8]] # [batch ''B'' [table1 ''u'' [3]]], EOF))
     heap0 = Panicked IndexOutOfRange"
proof -
  let ?st = "\<lparr>recvFrames = [1], recvCurFrame = Some 1\<rparr>"
  let ?h1 = "snd (alloc heap0 (table1 ''t'' [1]))"
  let ?h = "(snd (alloc ?h1 (table1 ''t'' [2])))
        \<lparr>cells := (cells (snd (alloc ?h1 (table1 ''t'' [2]))))(1 := table1 ''t'' [1, 2])\<rparr>"
  let ?sr = "batch ''A'' [table1 ''t'' [2], table2 ''g'' [7] [8]]"
  have f1: "Rows (table1 ''f'' [9]) \<noteq> 0" "recvCurFrame ?st = Some 1" "1 \<le> hi (storeAB ''b'')"
    "length (Fields (table1 ''f'' [9])) \<le> length (Fields (cells (storeAB ''b'') 1))"
    by (simp_all add: examples Rows_def)
  have f2: "Rows (table2 ''g'' [7] [8]) \<noteq> 0" "1 \<le> hi ?h"
    "length (Fields (cells ?h 1)) < length (Fields (table2 ''g'' [7] [8]))"
    "length (Fields (table1 ''t'' [1, 2])) < length (Fields (table2 ''g'' [7] [8]))"
    by (simp_all add: examples Rows_def)
  have r: "received Inr [batch ''A'' [table1 ''t'' [1]]] heap0 Map.empty =
      Returned (Inr (?h1, [''A'' \<mapsto> ?st]))"
    by (simp add: examples frameStep_def Rows_def)
  have l: "frameLoop Inr [table1 ''t'' [2]] ?h1 ?st = Returned (Inr (?h, ?st))"
    by (simp add: examples frameStep_def Rows_def AppendAll_def)
  have l': "frameLoop Inr [table1 ''t'' [2]] ?h1
      (case [''A'' \<mapsto> ?st] (RefId ?sr) of None \<Rightarrow> zeroStreamState | Some s \<Rightarrow> s) =
      Returned (Inr (?h, ?st))"
    using l by (simp add: batch_def)
  have fr: "Frames ?sr = [table1 ''t'' [2]] @ table2 ''g'' [7] [8] # []"
    by (simp add: batch_def)
  from frameStep_merge_without_check
      [where U = Inr and frame = "table1 ''f'' [9]" and fv = "table1 ''f'' [9]"
         and st = ?st and c = 1 and h = "storeAB ''b''"] f1
  have 1: "frameStep Inr (table1 ''f'' [9]) (storeAB ''b'') ?st =
     Returned (Inr ((snd (alloc (storeAB ''b'') (table1 ''f'' [9])))
        \<lparr>cells := (cells (snd (alloc (storeAB ''b'') (table1 ''f'' [9]))))
           (1 := (table1 ''a'' [1, 9])\<lparr>RefID := ''A''\<rparr>)\<rparr>, ?st))"
    by (simp add: examples AppendAll_def)
  from frameStep_merge_without_check
      [where U = Inr and frame = "table2 ''g'' [7] [8]" and fv = "table2 ''g'' [7] [8]"
         and st = ?st and c = 1 and h = ?h
         and before = "[batch ''A'' [table1 ''t'' [1]]]" and ?h0.0 = heap0 and ?h1.0 = ?h1
         and stateByRefID = "[''A'' \<mapsto> ?st]" and pre = "[table1 ''t'' [2]]" and sr = ?sr
         and others = "[]" and msgs = "[batch ''B'' [table1 ''u'' [3]]]" and fin = EOF]
    f2 r l' fr
  have 2: "QueryChunkedData Inr
     (Inr ([batch ''A'' [table1 ''t'' [1]]] @ ?sr # [batch ''B'' [table1 ''u'' [3]]], EOF))
     heap0 = Panicked IndexOutOfRange"
    by simp
  from f1 f2 r l 1 2 show ?thesis by simp
qed

text \<open>
  The claim C3 fails: a response whose second fragment has one column where the open
  table has two is merged without any error, and the stream ends with a table whose
  columns have two rows and one row.
\<close>

theorem merge_column_count_counterexample:
  "(case QueryChunkedData Inr
           (Inr ([batch ''A'' [table2 ''t'' [1] [2], table1 ''f'' [9]]], EOF)) heap0 of
      Returned (Some resp, None) \<Rightarrow> resp ''A''
    | _ \<Rightarrow> None) =
   Some [table2 ''t'' [1, 9] [2]]"
  by (simp add: examples reader_defs)

section \<open>The reassembler: a stream that ends with an error\<close>

lemma recvLoop_end_of_stream:
  "recvLoop U msgs EOF h sbr = Returned (Some acc, None) \<Longrightarrow>
   recvLoop U msgs fin h sbr =
     (if IsEOF fin then Returned (Some acc, None) else Returned (None, Some fin))"
  by (induction msgs arbitrary: h sbr) (auto split: outcome.splits sum.splits)

text \<open>
  C6, as the code has it. Take responses that the loop merges into tables: followed by
  \<open>EOF\<close> they return the tables \<open>acc\<close>. When \<^verbatim>\<open>Recv\<close> ends the stream after them with an
  error \<open>fin\<close> that neither is \<^verbatim>\<open>io.EOF\<close> nor wraps it, \<open>QueryChunkedData\<close> leaves its loop
  and returns \<open>fin\<close> with a nil response: the tables are not returned. An error that wraps
  \<^verbatim>\<open>io.EOF\<close> ends the stream as \<^verbatim>\<open>io.EOF\<close> does.
\<close>

theorem QueryChunkedData_early_error_drops_tables:
  "QueryChunkedData U (Inr (msgs, EOF)) h = Returned (Some acc, None) \<Longrightarrow>
   QueryChunkedData U (Inr (msgs, fin)) h =
     (if IsEOF fin then Returned (Some acc, None) else Returned (None, Some fin))"
  by (simp add: QueryChunkedData_def recvLoop_end_of_stream)

theorem QueryChunkedData_early_error_drops_tables_witness:
  "QueryChunkedData Inr (Inr ([batch ''A'' [table1 ''t'' [1]]], EOF)) heap0 =
     Returned (Some (collect (snd (alloc heap0 (table1 ''t'' [1])))
                       [''A'' \<mapsto> \<lparr>recvFrames = [1], recvCurFrame = Some 1\<rparr>]), None) \<and>
   \<not> IsEOF (ErrOther ''canceled'') \<and>
   QueryChunkedData Inr (Inr ([batch ''A'' [table1 ''t'' [1]]], ErrOther ''canceled'')) heap0 =
     Returned (None, Some (ErrOther ''canceled'')) \<and>
   IsEOF (ErrWrap ''recv: EOF'' EOF) \<and>
   QueryChunkedData Inr (Inr ([batch ''A'' [table1 ''t'' [1]]], ErrWrap ''recv: EOF'' EOF)) heap0 =
     Returned (Some (collect (snd (alloc heap0 (table1 ''t'' [1])))
                       [''A'' \<mapsto> \<lparr>recvFrames = [1], recvCurFrame = Some 1\<rparr>]), None)"
proof -
  have q: "QueryChunkedData Inr (Inr ([batch ''A'' [table1 ''t'' [1]]], EOF)) heap0 =
     Returned (Some (collect (snd (alloc heap0 (table1 ''t'' [1])))
                       [''A'' \<mapsto> \<lparr>recvFrames = [1], recvCurFrame = Some 1\<rparr>]), None)"
    by (simp add: examples QueryChunkedData_def frameStep_def Rows_def)
  from QueryChunkedData_early_error_drops_tables [OF q, of "ErrOther ''canceled''"]
    QueryChunkedData_early_error_drops_tables [OF q, of "ErrWrap ''recv: EOF'' EOF"] q
  show ?thesis by simp
qed

text \<open>
  The claim C6 fails: one response with a table of one row, then a cancellation. Followed
  by \<open>EOF\<close> the response gives the table; followed by the cancellation the call returns
  the error and a nil response.
\<close>

theorem early_error_counterexample:
  "(case QueryChunkedData Inr (Inr ([batch ''A'' [table1 ''t'' [1]]], EOF)) heap0 of
      Returned (Some resp, None) \<Rightarrow> resp ''A''
    | _ \<Rightarrow> None) = Some [table1 ''t'' [1]] \<and>
   QueryChunkedData Inr (Inr ([batch ''A'' [table1 ''t'' [1]]], ErrOther ''canceled'')) heap0 =
     Returned (None, Some (ErrOther ''canceled''))"
  by (simp add: examples reader_defs)

section \<open>The reassembler: fragments without rows\<close>

lemma frameStep_populated:
  assumes "frameStep U frame h st = Returned (Inr (h', st'))"
    and "case recvCurFrame st of None \<Rightarrow> True | Some c \<Rightarrow> populated h c"
    and "populated h a"
  shows "populated h' a"
proof -
  from assms(1) obtain fv where fv: "U frame = Inr fv"
    by (auto simp: frameStep_def split: sum.splits)
  show ?thesis
  proof (cases "Rows fv = 0 \<or> recvCurFrame st = None")
    case True
    with assms(1,3) fv show ?thesis
      by (auto simp: frameStep_def alloc_def populated_def split: if_splits option.splits)
  next
    case False
    then obtain c where c: "recvCurFrame st = Some c" and rows: "Rows fv \<noteq> 0" by auto
    from assms(2) c have pc: "c \<le> hi h" "0 < Rows (cells h c)" by (auto simp: populated_def)
    from assms(1) fv c rows pc obtain cs where
      m: "mergeFields (Fields (cells h c)) (Fields fv) = Returned cs" and
      h': "h' = (snd (alloc h fv))\<lparr>cells := (cells (snd (alloc h fv)))(c := (cells h c)\<lparr>Fields := cs\<rparr>)\<rparr>"
      by (auto simp: frameStep_def alloc_def split: outcome.splits)
    from mergeFields_first_column [OF m] pc(2) have "0 < Rows ((cells h c)\<lparr>Fields := cs\<rparr>)"
      by (simp add: Rows_def)
    with assms(3) h' show ?thesis
      by (auto simp: populated_def alloc_def)
  qed
qed

lemma frameStep_goodState:
  assumes "frameStep U frame h st = Returned (Inr (h', st'))" and "goodState h st"
  shows "goodState h' st'"
proof -
  from assms(2) have cur: "case recvCurFrame st of None \<Rightarrow> True | Some c \<Rightarrow> populated h c"
    by (simp add: goodState_def)
  have keep: "populated h a \<Longrightarrow> populated h' a" for a
    using frameStep_populated [OF assms(1) cur] .
  from assms(1) obtain fv where fv: "U frame = Inr fv"
    by (auto simp: frameStep_def split: sum.splits)
  have old: "list_all (populated h') (recvFrames st)"
    using assms(2) keep by (auto simp: goodState_def list_all_iff)
  show ?thesis
  proof (cases "Rows fv = 0")
    case True
    with assms(1) fv have "st' = st\<lparr>recvCurFrame := None\<rparr>"
      by (auto simp: frameStep_def alloc_def)
    with old show ?thesis by (simp add: goodState_def)
  next
    case rows: False
    show ?thesis
    proof (cases "recvCurFrame st")
      case None
      with assms(1) fv rows have
        st': "st' = st\<lparr>recvFrames := recvFrames st @ [Suc (hi h)], recvCurFrame := Some (Suc (hi h))\<rparr>"
        and h': "h' = snd (alloc h fv)"
        by (auto simp: frameStep_def alloc_def)
      from h' rows have "populated h' (Suc (hi h))"
        by (simp add: populated_def alloc_def)
      with old st' show ?thesis by (simp add: goodState_def)
    next
      case (Some c)
      with assms(1) fv rows have "st' = st"
        by (auto simp: frameStep_def alloc_def split: outcome.splits)
      moreover from cur Some have "populated h' c" by (simp add: keep)
      ultimately show ?thesis using old Some by (simp add: goodState_def)
    qed
  qed
qed

lemma frameLoop_invariant:
  "frameLoop U bs h st = Returned (Inr (h', st')) \<Longrightarrow> goodState h st \<Longrightarrow>
   goodState h' st' \<and> (\<forall>a. populated h a \<longrightarrow> populated h' a)"
proof (induction bs arbitrary: h st)
  case Nil
  then show ?case by simp
next
  case (Cons b bs)
  from Cons.prems(1) obtain h1 st1 where
    s: "frameStep U b h st = Returned (Inr (h1, st1))" and
    l: "frameLoop U bs h1 st1 = Returned (Inr (h', st'))"
    by (auto split: outcome.splits sum.splits)
  have g1: "goodState h1 st1" using frameStep_goodState [OF s Cons.prems(2)] .
  have k1: "populated h a \<Longrightarrow> populated h1 a" for a
    using frameStep_populated [OF s] Cons.prems(2) by (simp add: goodState_def)
  from Cons.IH [OF l g1] k1 show ?case by blast
qed

lemma goodState_mono:
  "goodState h st \<Longrightarrow> (\<forall>a. populated h a \<longrightarrow> populated h' a) \<Longrightarrow> goodState h' st"
  by (auto simp: goodState_def list_all_iff split: option.splits)

lemma recvLoop_tables_populated:
  "recvLoop U msgs fin h sbr = Returned (Some resp, e) \<Longrightarrow>
   (\<forall>k st. sbr k = Some st \<longrightarrow> goodState h st) \<Longrightarrow>
   resp refID = Some fs \<Longrightarrow> f \<in> set fs \<Longrightarrow> 0 < Rows f"
proof (induction msgs arbitrary: h sbr)
  case Nil
  from Nil.prems(1) have resp: "resp = collect h sbr"
    by (simp split: if_splits)
  with Nil.prems(3) obtain st where st: "sbr refID = Some st" and fs: "fs = map (cells h) (recvFrames st)"
    by (auto simp: collect_def split: option.splits)
  from Nil.prems(2) st have "list_all (populated h) (recvFrames st)"
    by (simp add: goodState_def)
  with fs Nil.prems(4) show ?case
    by (auto simp: list_all_iff populated_def)
next
  case (Cons sr msgs)
  let ?st = "case sbr (RefId sr) of None \<Rightarrow> zeroStreamState | Some st \<Rightarrow> st"
  from Cons.prems(1) obtain h1 st1 where
    l: "frameLoop U (Frames sr) h ?st = Returned (Inr (h1, st1))" and
    r: "recvLoop U msgs fin h1 (sbr(RefId sr \<mapsto> st1)) = Returned (Some resp, e)"
    by (auto split: outcome.splits sum.splits)
  have "goodState h ?st"
    using Cons.prems(2) by (auto simp: goodState_def zeroStreamState_def split: option.splits)
  from frameLoop_invariant [OF l this]
  have g1: "goodState h1 st1" and k: "\<forall>a. populated h a \<longrightarrow> populated h1 a" by auto
  have "\<forall>k st. (sbr(RefId sr \<mapsto> st1)) k = Some st \<longrightarrow> goodState h1 st"
    using g1 Cons.prems(2) goodState_mono [OF _ k] by auto
  from Cons.IH [OF r this Cons.prems(3,4)] show ?case .
qed

text \<open>
  C10. The reassembler tells a marker from a table by the row count alone. A decoded
  fragment without rows, whatever its columns, sets the open frame of the identifier to
  nil and is added to no list; and every table that \<open>QueryChunkedData\<close> returns, for any
  identifier, has at least one row.
\<close>

theorem zero_row_fragment_closes_and_is_dropped:
  "(U frame = Inr fv \<and> Rows fv = 0 \<longrightarrow>
      frameStep U frame h st = Returned (Inr (snd (alloc h fv), st\<lparr>recvCurFrame := None\<rparr>))) \<and>
   (QueryChunkedData U conn h0 = Returned (Some resp, e) \<and> resp refID = Some fs \<and> f \<in> set fs \<longrightarrow>
      0 < Rows f)"
proof (intro conjI impI)
  assume "U frame = Inr fv \<and> Rows fv = 0"
  then show "frameStep U frame h st = Returned (Inr (snd (alloc h fv), st\<lparr>recvCurFrame := None\<rparr>))"
    by (simp add: frameStep_def alloc_def)
next
  assume a: "QueryChunkedData U conn h0 = Returned (Some resp, e) \<and> resp refID = Some fs \<and> f \<in> set fs"
  then obtain msgs fin where "recvLoop U msgs fin h0 Map.empty = Returned (Some resp, e)"
    by (auto simp: QueryChunkedData_def split: sum.splits)
  moreover have "\<forall>k st. (Map.empty :: string \<rightharpoonup> streamState) k = Some st \<longrightarrow> goodState h0 st"
    by simp
  ultimately show "0 < Rows f"
    using a recvLoop_tables_populated by blast
qed

text \<open>
  The theorem at a fragment with one column and no row that follows a table: the step
  closes the open frame, and the stream returns the table of one row alone.
\<close>

theorem zero_row_fragment_closes_and_is_dropped_witness:
  "Rows (table1 ''t'' []) = 0 \<and>
   frameStep Inr (table1 ''t'' []) (storeAB ''b'') \<lparr>recvFrames = [1], recvCurFrame = Some 1\<rparr> =
     Returned (Inr (snd (alloc (storeAB ''b'') (table1 ''t'' [])),
                    \<lparr>recvFrames = [1], recvCurFrame = None\<rparr>)) \<and>
   QueryChunkedData Inr (Inr ([batch ''A'' [table1 ''t'' [1], table1 ''t'' []]], EOF)) heap0 =
     Returned (Some (collect (snd (alloc (snd (alloc heap0 (table1 ''t'' [1]))) (table1 ''t'' [])))
                       [''A'' \<mapsto> \<lparr>recvFrames = [1], recvCurFrame = None\<rparr>]), None) \<and>
   collect (snd (alloc (snd (alloc heap0 (table1 ''t'' [1]))) (table1 ''t'' [])))
     [''A'' \<mapsto> \<lparr>recvFrames = [1], recvCurFrame = None\<rparr>] ''A'' = Some [table1 ''t'' [1]] \<and>
   table1 ''t'' [1] \<in> set [table1 ''t'' [1]] \<and>
   0 < Rows (table1 ''t'' [1])"
proof -
  let ?h = "snd (alloc (snd (alloc heap0 (table1 ''t'' [1]))) (table1 ''t'' []))"
  let ?s = "[''A'' \<mapsto> \<lparr>recvFrames = [1], recvCurFrame = None\<rparr>]"
  have z: "Inr (table1 ''t'' []) = (Inr (table1 ''t'' []) :: error + nat frame) \<and> Rows (table1 ''t'' []) = 0"
    by (simp add: examples Rows_def)
  have q: "QueryChunkedData Inr (Inr ([batch ''A'' [table1 ''t'' [1], table1 ''t'' []]], EOF)) heap0 =
      Returned (Some (collect ?h ?s), None) \<and>
    collect ?h ?s ''A'' = Some [table1 ''t'' [1]] \<and> table1 ''t'' [1] \<in> set [table1 ''t'' [1]]"
    by (simp add: examples reader_defs)
  from zero_row_fragment_closes_and_is_dropped
    [of Inr "table1 ''t'' []" "table1 ''t'' []" "storeAB ''b''"
        "\<lparr>recvFrames = [1], recvCurFrame = Some 1\<rparr>"
        "Inr ([batch ''A'' [table1 ''t'' [1], table1 ''t'' []]], EOF)" heap0 "collect ?h ?s" None
        "''A''" "[table1 ''t'' [1]]" "table1 ''t'' [1]"] z q
  show ?thesis by simp
qed

section \<open>Writer and reassembler together\<close>

text \<open>
  C1. The handler \<open>interleaved\<close> opens one table for \<open>A\<close> and appends the rows 1 and 2 to
  it. The second flush, caused by \<open>B\<close>, sends the empty copy that continues the table of
  \<open>A\<close> while it has no row; the reassembler takes it for a marker and closes the table.
  At the end of the stream \<open>A\<close> has two tables of one row each instead of one table with
  the rows 1 and 2.
\<close>

theorem interleaved_table_is_split:
  "(case run Inr sendOk sourceName interleaved heap0 newChunkedDataWriter of
      (r, h, w) \<Rightarrow>
        (r, case QueryChunkedData Inr (Inr (stream w, EOF)) heap0 of
              Returned (Some resp, None) \<Rightarrow> resp ''A''
            | _ \<Rightarrow> None)) =
   (Returned None, Some [(table1 ''a'' [1])\<lparr>RefID := ''A''\<rparr>, (table1 ''a'' [2])\<lparr>RefID := ''A''\<rparr>])"
  by (simp add: interleaved_def examples writer_defs reader_defs)

end
